theory Spec2Isabelle
  imports Main
begin

section \<open>Strings\<close>

text \<open>
  Python strings are modelled as \<^typ>\<open>string\<close>, read as sequences of code points below 256.
  \<open>py_lower\<close> is \<^verbatim>\<open>str.lower()\<close> and \<open>py_split\<close> is \<^verbatim>\<open>str.split()\<close> without arguments
  on that range.
\<close>

definition dquote :: char where
  "dquote = CHR 0x22"

definition py_lower_char :: "char \<Rightarrow> char" where
  "py_lower_char c =
     (let n = (of_char c :: nat)
      in if (65 \<le> n \<and> n \<le> 90) \<or> (192 \<le> n \<and> n \<le> 222 \<and> n \<noteq> 215)
         then char_of (n + 32) else c)"

definition py_lower :: "string \<Rightarrow> string" where
  "py_lower s = map py_lower_char s"

definition py_isspace :: "char \<Rightarrow> bool" where
  "py_isspace c =
     (let n = (of_char c :: nat)
      in (9 \<le> n \<and> n \<le> 13) \<or> (28 \<le> n \<and> n \<le> 32) \<or> n = 133 \<or> n = 160)"

fun split_ws :: "string \<Rightarrow> string \<Rightarrow> string list" where
  "split_ws cur [] = (if cur = [] then [] else [cur])"
| "split_ws cur (c # cs) =
     (if py_isspace c then (if cur = [] then split_ws [] cs else cur # split_ws [] cs)
      else split_ws (cur @ [c]) cs)"

definition py_split :: "string \<Rightarrow> string list" where
  "py_split s = split_ws [] s"

definition startswith :: "string \<Rightarrow> string \<Rightarrow> bool" where
  "startswith s p = (take (length p) s = p)"

definition endswith :: "string \<Rightarrow> string \<Rightarrow> bool" where
  "endswith s p = (length p \<le> length s \<and> drop (length s - length p) s = p)"

text \<open>\<^verbatim>\<open>s[i:j]\<close> for indices \<open>0 \<le> i\<close> and \<open>0 \<le> j\<close>.\<close>

definition py_slice :: "'a list \<Rightarrow> nat \<Rightarrow> nat \<Rightarrow> 'a list" where
  "py_slice s i j = take (j - i) (drop i s)"

section \<open>The settings store and the prefix operations of \<open>CoreController\<close>\<close>

text \<open>
  Modelled from the spec: the key-value store \<^verbatim>\<open>dwarf.cache.Cache\<close> is an external
  collaborator with \<open>get(key, default)\<close>, \<open>set\<close>, \<open>delete\<close> and \<open>publish(topic)\<close>. The record
  holds the keys the modelled code reads and writes; an absent key is \<open>None\<close>.
\<close>

record cache =
  prefixes :: "string list option"
  owner :: "nat option"
  restarted_from :: "nat option"
  published :: "string list"

datatype prefix_error = PrefixNotFound | PrefixAlreadyExists

definition get_prefixes :: "cache \<Rightarrow> string list" where
  "get_prefixes c = (case prefixes c of None \<Rightarrow> [] | Some ps \<Rightarrow> ps)"

definition set_prefixes :: "string list \<Rightarrow> cache \<Rightarrow> cache" where
  "set_prefixes ps c = c\<lparr>prefixes := Some ps\<rparr>"

text \<open>
  \<open>CoreController.add_prefix\<close> and \<open>remove_prefix\<close> (controllers.py 112-144). A raised
  exception is the \<open>Inl\<close> result; the store is returned beside it.
\<close>

definition add_prefix :: "string \<Rightarrow> cache \<Rightarrow> (prefix_error + unit) \<times> cache" where
  "add_prefix prefix c =
     (let ps = get_prefixes c
      in if prefix \<in> set ps then (Inl PrefixAlreadyExists, c)
         else (Inr (), set_prefixes (ps @ [prefix]) c))"

definition remove_prefix :: "string \<Rightarrow> cache \<Rightarrow> (prefix_error + unit) \<times> cache" where
  "remove_prefix prefix c =
     (let ps = get_prefixes c
      in if prefix \<notin> set ps then (Inl PrefixNotFound, c)
         else (Inr (), set_prefixes (remove1 prefix ps) c))"

definition get_owner_id :: "cache \<Rightarrow> nat option" where
  "get_owner_id c = owner c"

text \<open>\<open>CoreController.restart\<close> (controllers.py 80-85) with a channel as \<open>restarted_from\<close>.\<close>

definition restart :: "nat \<Rightarrow> cache \<Rightarrow> cache" where
  "restart chan c = c\<lparr>restarted_from := Some chan, published := published c @ [''restart'']\<rparr>"

section \<open>Messages, contexts and the bot's state\<close>

text \<open>
  An incoming message, and the context of a command invocation: the invoking message's
  author, channel and guild (\<open>None\<close> in a private conversation), and whether the author is a
  bot account.
\<close>

record message =
  author :: nat
  channel :: nat
  content :: string

record ctx =
  ctx_author :: nat
  ctx_channel :: nat
  ctx_guild :: "nat option"
  author_is_bot :: bool

text \<open>
  What arrives while the bot waits: a message, or the expiry of the current wait's timeout.
\<close>

datatype event = Message message | Timeout

text \<open>
  Outgoing messages, one constructor for each text the code sends; the arguments are the
  values interpolated into the text. The texts kept in the absent module \<^verbatim>\<open>strings\<close> are
  constructors of their own.
\<close>

datatype msg =
    Specify_extension_name
  | Skipping_this_extension
  | Installing string
  | Already_installed string
  | No_extension_called string
  | Failed_to_install string "string list" "string list"
  | Ask_install_packages
  | Installed_package string
  | Failed_to_install_packages "string list"
  | Will_not_install_packages string
  | Ask_install_dependencies string
  | Failed_dependencies string
  | Will_not_install_dependencies
  | Installed_successfully string
  | Installation_completed "string list" "string list" "string list" "string list"
  | Restart_question
  | Be_right_back
  | Updating string
  | Could_not_be_found string
  | Failed_to_update string "string list" "string list"
  | Ask_new_requirements string
  | Ask_new_dependencies string
  | Failed_new_dependencies string
  | Updated_successfully string
  | Update_completed "string list" "string list" "string list" "string list"
  | Uninstalling string
  | Would_be_uninstalled_too string "string list"
  | Proceed_with_uninstallation
  | Failed_to_uninstall "string list"
  | Will_not_uninstall
  | Uninstalled_successfully string
  | Uninstallation_completed "string list" "string list"
  | Prefix_added string
  | Prefix_already_exists string
  | Leave_question nat
  | Stay_then
  | Done
  | Choice_prompt string "string list"

text \<open>
  The state a command handler works on: the state \<open>registry\<close> of the absent
  \<open>BaseController\<close>, the settings store, the bot's \<open>command_prefix\<close>, the guilds the bot is a
  member of, the events still to arrive, the messages sent so far (oldest first), and
  \<open>status\<close>, the handler's local \<^verbatim>\<open>defaultdict(lambda: [])\<close>.
\<close>

record 'r state =
  registry :: 'r
  store :: cache
  command_prefix :: "string list"
  guilds :: "nat list"
  inbox :: "event list"
  outbox :: "msg list"
  status :: "string \<Rightarrow> string list"

definition send :: "msg \<Rightarrow> 'r state \<Rightarrow> 'r state" where
  "send m s = s\<lparr>outbox := outbox s @ [m]\<rparr>"

text \<open>\<^verbatim>\<open>status[key].append(x)\<close> and \<^verbatim>\<open>status[key] += xs\<close>.\<close>

definition append_status :: "string \<Rightarrow> string \<Rightarrow> 'r state \<Rightarrow> 'r state" where
  "append_status key x s = s\<lparr>status := (status s)(key := status s key @ [x])\<rparr>"

definition extend_status :: "string \<Rightarrow> string list \<Rightarrow> 'r state \<Rightarrow> 'r state" where
  "extend_status key xs s = s\<lparr>status := (status s)(key := status s key @ xs)\<rparr>"

section \<open>Waiting for replies\<close>

text \<open>
  Modelled from the spec: the messaging collaborator's
  \<open>wait_for_reply(author, target, predicate, timeout) -> message | None\<close>. Messages the
  check refuses are passed over; the wait ends with the first accepted message or, with
  \<open>None\<close>, at the timeout. No further event is a wait that times out.
\<close>

fun wait_for :: "(message \<Rightarrow> bool) \<Rightarrow> event list \<Rightarrow> message option \<times> event list" where
  "wait_for check [] = (None, [])"
| "wait_for check (Timeout # evs) = (None, evs)"
| "wait_for check (Message m # evs) = (if check m then (Some m, evs) else wait_for check evs)"

text \<open>
  \<^verbatim>\<open>bot.wait_for('message', check=..., timeout=...)\<close> as cogs.py 79 calls it: bot.py does
  not override it, so it is the client library's \<^verbatim>\<open>Client.wait_for\<close>, which returns the
  accepted message and at the timeout raises \<^verbatim>\<open>asyncio.TimeoutError\<close>.
\<close>

datatype raised = TimeoutError

definition client_wait_for ::
  "(message \<Rightarrow> bool) \<Rightarrow> event list \<Rightarrow> (raised + message) \<times> event list" where
  "client_wait_for check evs =
     (case wait_for check evs of
        (None, evs') \<Rightarrow> (Inl TimeoutError, evs')
      | (Some m, evs') \<Rightarrow> (Inr m, evs'))"

definition is_response :: "ctx \<Rightarrow> message \<Rightarrow> bool" where
  "is_response ctx m = (ctx_author ctx = author m \<and> ctx_channel ctx = channel m)"

text \<open>
  Modelled from the spec: \<open>Bot.wait_for_response\<close> is absent from the sources; it is used
  (cogs.py 629-631) as returning a reply of the invoking author in the invoking channel, or
  \<open>None\<close> at the timeout.
\<close>

definition wait_for_response :: "ctx \<Rightarrow> 'r state \<Rightarrow> message option \<times> 'r state" where
  "wait_for_response ctx s =
     (case wait_for (is_response ctx) (inbox s) of (r, evs) \<Rightarrow> (r, s\<lparr>inbox := evs\<rparr>))"

text \<open>
  Modelled from the spec: \<open>Bot.wait_for_answer\<close> is absent from the sources. It is the
  spec's \<open>ask_yes_no\<close>: the reply of the same author in the same conversation is true when,
  case-insensitively, it is \<open>yes\<close> or \<open>y\<close>, and false otherwise; without a reply before the
  timeout the result is \<open>None\<close>.
\<close>

definition wait_for_answer :: "ctx \<Rightarrow> 'r state \<Rightarrow> bool option \<times> 'r state" where
  "wait_for_answer ctx s =
     (case wait_for (is_response ctx) (inbox s) of
        (None, evs) \<Rightarrow> (None, s\<lparr>inbox := evs\<rparr>)
      | (Some m, evs) \<Rightarrow> (Some (py_lower (content m) \<in> {''yes'', ''y''}), s\<lparr>inbox := evs\<rparr>))"

section \<open>Authorization of command invocations\<close>

text \<open>The commands of the \<open>Core\<close> cog (cogs.py).\<close>

datatype command =
    Cmd_eval | Cmd_install | Cmd_update | Cmd_uninstall
  | Cmd_set_name | Cmd_set_nickname | Cmd_set_game | Cmd_set_status | Cmd_set_stream
  | Cmd_set_avatar | Cmd_set_token | Cmd_set_description | Cmd_set_repository
  | Cmd_set_officialinvite | Cmd_add_prefix | Cmd_remove_prefix | Cmd_prefixes
  | Cmd_ping | Cmd_shutdown | Cmd_restart | Cmd_leave | Cmd_servers
  | Cmd_contact | Cmd_about | Cmd_version

text \<open>The commands decorated with \<^verbatim>\<open>@commands.is_owner()\<close> in cogs.py.\<close>

fun owner_only :: "command \<Rightarrow> bool" where
  "owner_only Cmd_ping = False"
| "owner_only Cmd_contact = False"
| "owner_only Cmd_about = False"
| "owner_only Cmd_version = False"
| "owner_only _ = True"

text \<open>\<open>Bot.user_allowed\<close> (bot.py 153-163), the check added to every command.\<close>

definition user_allowed :: "cache \<Rightarrow> ctx \<Rightarrow> bool" where
  "user_allowed c ctx =
     (if author_is_bot ctx then False
      else if get_owner_id c = Some (ctx_author ctx) then True
      else True)"

text \<open>
  The \<^verbatim>\<open>is_owner\<close> check of the command framework: the author is the owner. The owner it
  compares with is the one \<open>Bot.set_bot_owner\<close> (bot.py 217-224) stores under \<open>owner\<close>.
\<close>

definition is_owner :: "cache \<Rightarrow> ctx \<Rightarrow> bool" where
  "is_owner c ctx = (get_owner_id c = Some (ctx_author ctx))"

text \<open>
  Invocation as the command framework (\<^verbatim>\<open>discord.ext.commands\<close>, a library outside the
  sources) performs it: the handler runs only when the bot's check and the command's own
  checks pass. A failed check is handed to the error event, for which bot.py defines no
  handler, so nothing is sent and the state stays as it was.
\<close>

definition invoke ::
  "(command \<Rightarrow> ctx \<Rightarrow> 'r state \<Rightarrow> 'r state) \<Rightarrow> command \<Rightarrow> ctx \<Rightarrow> 'r state \<Rightarrow> 'r state" where
  "invoke handler cmd ctx s =
     (if user_allowed (store s) ctx \<and> (owner_only cmd \<longrightarrow> is_owner (store s) ctx)
      then handler cmd ctx s else s)"

section \<open>The numbered-choice prompt\<close>

datatype py_error = TypeError | ValueError | IndexError

text \<open>
  \<^verbatim>\<open>int(c)\<close> for a one-character string: the digit's value, or \<open>ValueError\<close>.
\<close>

definition py_int_char :: "char \<Rightarrow> py_error + int" where
  "py_int_char c =
     (let n = (of_char c :: nat)
      in if 48 \<le> n \<and> n \<le> 57 then Inr (int n - 48) else Inl ValueError)"

text \<open>
  \<open>choice_check\<close> (bot.py 187-188):
  \<^verbatim>\<open>int(message.content[0]) - 1 in range(len(choices))\<close>.
\<close>

definition choice_check :: "'a list \<Rightarrow> message \<Rightarrow> py_error + bool" where
  "choice_check choices m =
     (case content m of
        [] \<Rightarrow> Inl IndexError
      | c # _ \<Rightarrow>
          (case py_int_char c of
             Inl e \<Rightarrow> Inl e
           | Inr d \<Rightarrow> Inr (0 \<le> d - 1 \<and> d - 1 < int (length choices))))"

text \<open>
  \<^verbatim>\<open>wait_for_message(author, channel, check, timeout)\<close> of the client library: the check is
  consulted for messages of that author in that channel only, and an exception it raises
  ends the wait with that exception.
\<close>

fun wait_for_message ::
  "nat \<Rightarrow> nat \<Rightarrow> (message \<Rightarrow> py_error + bool) \<Rightarrow> event list \<Rightarrow> (py_error + message option) \<times> event list" where
  "wait_for_message a ch check [] = (Inr None, [])"
| "wait_for_message a ch check (Timeout # evs) = (Inr None, evs)"
| "wait_for_message a ch check (Message m # evs) =
     (if author m = a \<and> channel m = ch then
        (case check m of
           Inl e \<Rightarrow> (Inl e, evs)
         | Inr True \<Rightarrow> (Inr (Some m), evs)
         | Inr False \<Rightarrow> wait_for_message a ch check evs)
      else wait_for_message a ch check evs)"

text \<open>\<^verbatim>\<open>range(x)\<close> where \<open>x\<close> is a list object: a \<open>TypeError\<close>.\<close>

definition py_range_of_list :: "'a list \<Rightarrow> py_error + nat list" where
  "py_range_of_list xs = Inl TypeError"

text \<open>
  \<open>Bot.wait_for_choice\<close> (bot.py 183-197). The loop header is \<^verbatim>\<open>for i in range(choices)\<close>.
\<close>

definition wait_for_choice ::
  "nat \<Rightarrow> nat \<Rightarrow> string \<Rightarrow> string list \<Rightarrow> 'r state \<Rightarrow> (py_error + message option) \<times> 'r state" where
  "wait_for_choice a ch text choices s =
     (case py_range_of_list choices of
        Inl e \<Rightarrow> (Inl e, s)
      | Inr idx \<Rightarrow>
          (let s1 = send (Choice_prompt text (map (\<lambda>i. choices ! i) idx)) s
           in case wait_for_message a ch (choice_check choices) (inbox s1) of
                (r, evs) \<Rightarrow> (r, s1\<lparr>inbox := evs\<rparr>)))"

section \<open>Commands of the \<open>Core\<close> cog on prefixes and guilds\<close>

text \<open>
  \<open>Core.add_prefix\<close> (cogs.py 513-527). The handler catches \<open>PrefixAlreadyExists\<close> only;
  \<open>add_prefix\<close> raises nothing else.
\<close>

definition cmd_add_prefix :: "string \<Rightarrow> 'r state \<Rightarrow> 'r state" where
  "cmd_add_prefix prefix0 s =
     (let prefix = (if startswith prefix0 [dquote] \<and> endswith prefix0 [dquote]
                    then py_slice prefix0 1 (length prefix0 - 1) else prefix0)
      in case add_prefix prefix (store s) of
           (Inr _, c) \<Rightarrow>
             send (Prefix_added prefix) (s\<lparr>store := c, command_prefix := get_prefixes c\<rparr>)
         | (Inl PrefixAlreadyExists, c) \<Rightarrow> send (Prefix_already_exists prefix) (s\<lparr>store := c\<rparr>)
         | (Inl PrefixNotFound, c) \<Rightarrow> s\<lparr>store := c\<rparr>)"

text \<open>\<open>Core.leave_confirmation\<close> (cogs.py 584-596) for the guild \<open>g\<close>.\<close>

definition leave_confirmation :: "nat \<Rightarrow> ctx \<Rightarrow> 'r state \<Rightarrow> 'r state" where
  "leave_confirmation g ctx s =
     (let current_guild = ctx_guild ctx;
          s1 = send (Leave_question g) s;
          (answer, s2) = wait_for_answer ctx s1
      in if answer = None \<or> answer = Some False then send Stay_then s2
         else (let s3 = s2\<lparr>guilds := removeAll g (guilds s2)\<rparr>
               in if Some g \<noteq> current_guild then send Done s3 else s3))"

section \<open>The extension registry's interface\<close>

text \<open>
  \<open>unsatisfied\<close> is the dictionary \<open>BaseController.install_extension\<close> and
  \<open>update_extension\<close> return when requirements are unmet, with its keys \<open>packages\<close> and
  \<open>extensions\<close>.
\<close>

record unsatisfied =
  packages :: "string list"
  extensions :: "string list"

datatype install_error = ExtensionAlreadyInstalled | ExtensionNotInIndex

datatype lookup_error = ExtensionNotFound

text \<open>
  Modelled from the spec: \<open>BaseController\<close> (\<^verbatim>\<open>dwarf.controllers\<close>) is absent from the
  sources. Its operations are parameters of the handlers below: each takes the registry's
  state \<open>'r\<close> and returns the new one. Following the spec's contract of the registry,
  \<open>install_extension\<close> fails with \<open>AlreadyInstalled\<close> or \<open>NotInIndex\<close> only, and
  \<open>update_extension\<close> and \<open>uninstall_extension\<close> with \<open>NotFound\<close> only;
  \<open>install_package\<close> returns the package manager's exit code.
\<close>

record 'r base_controller =
  install_extension :: "string \<Rightarrow> string option \<Rightarrow> 'r \<Rightarrow> (install_error + unsatisfied option) \<times> 'r"
  update_extension :: "string \<Rightarrow> 'r \<Rightarrow> (lookup_error + unsatisfied option) \<times> 'r"
  uninstall_extension :: "string \<Rightarrow> 'r \<Rightarrow> (lookup_error + string list) \<times> 'r"
  install_package :: "string \<Rightarrow> 'r \<Rightarrow> int \<times> 'r"
  get_extensions :: "'r \<Rightarrow> string list"

section \<open>Loops that remove from the list they iterate\<close>

text \<open>
  The handlers contain loops of the shape
  \<^verbatim>\<open>for x in xs: ok = body(x); if ok: xs.remove(x)\<close>.
  Python's list iterator keeps an index \<open>i\<close>: each round reads \<open>xs[i]\<close> from the list as it
  is then, and the loop ends when \<open>i\<close> reaches the current length. \<open>xs.remove(x)\<close> deletes the
  first occurrence of \<open>x\<close>. The body may not return (\<open>None\<close>), which the loop passes on.
\<close>

function for_removing ::
  "('a \<Rightarrow> 's \<Rightarrow> (bool \<times> 's) option) \<Rightarrow> 'a list \<Rightarrow> nat \<Rightarrow> 's \<Rightarrow> ('a list \<times> 's) option" where
  "for_removing body xs i s =
     (if i < length xs then
        (case body (xs ! i) s of
           None \<Rightarrow> None
         | Some (ok, s') \<Rightarrow> for_removing body (if ok then remove1 (xs ! i) xs else xs) (Suc i) s')
      else Some (xs, s))"
  by pat_completeness auto
termination
  by (relation "measure (\<lambda>(body, xs, i, s). length xs - i)") (auto simp: length_remove1)

declare for_removing.simps [simp del]

text \<open>
  The same loop with a body that may raise: the exception ends the loop and is passed on
  (\<open>Inl\<close>), with the state reached.
\<close>

function for_removing_raising ::
  "('a \<Rightarrow> 's \<Rightarrow> (('e + bool) \<times> 's) option) \<Rightarrow> 'a list \<Rightarrow> nat \<Rightarrow> 's
     \<Rightarrow> (('e + 'a list) \<times> 's) option" where
  "for_removing_raising body xs i s =
     (if i < length xs then
        (case body (xs ! i) s of
           None \<Rightarrow> None
         | Some (Inl e, s') \<Rightarrow> Some (Inl e, s')
         | Some (Inr ok, s') \<Rightarrow>
             for_removing_raising body (if ok then remove1 (xs ! i) xs else xs) (Suc i) s')
      else Some (Inr xs, s))"
  by pat_completeness auto
termination
  by (relation "measure (\<lambda>(body, xs, i, s). length xs - i)") (auto simp: length_remove1)

declare for_removing_raising.simps [simp del]

section \<open>The \<open>install\<close> command\<close>

text \<open>
  \<open>extension_check\<close> (cogs.py 67-72).
\<close>

definition extension_check :: "ctx \<Rightarrow> message \<Rightarrow> bool" where
  "extension_check ctx m =
     (let extension_name = content m;
          is_same_author = (ctx_author ctx = author m);
          is_same_channel = (ctx_channel ctx = channel m);
          is_proper_name = (CHR '' '' \<notin> set extension_name)
      in is_same_author \<and> is_same_channel \<and> is_proper_name)"

text \<open>
  The head of \<open>_install\<close> (cogs.py 75-83): a name that starts with \<^verbatim>\<open>https://\<close> is a
  repository, and the extension's name is asked for. At the timeout \<^verbatim>\<open>bot.wait_for\<close>
  raises, which leaves \<open>_install\<close> at line 79: \<open>Inl\<close> is that exception with the state
  reached. The wait never results in \<open>None\<close>, so the test of line 80 fails and lines 81-82
  (the message on skipping and \<^verbatim>\<open>return False\<close>) are not reached. \<open>Inr\<close> carries the name
  and the repository.
\<close>

definition ask_extension_name ::
  "ctx \<Rightarrow> string \<Rightarrow> 'r state \<Rightarrow> (raised \<times> 'r state) + (string \<times> string option \<times> 'r state)" where
  "ask_extension_name ctx ext s =
     (if startswith ext ''https://'' then
        (let s1 = send Specify_extension_name s
         in case client_wait_for (extension_check ctx) (inbox s1) of
              (Inl e, evs) \<Rightarrow> Inl (e, s1\<lparr>inbox := evs\<rparr>)
            | (Inr m, evs) \<Rightarrow> Inr (content m, Some ext, s1\<lparr>inbox := evs\<rparr>))
      else Inr (ext, None, s))"

text \<open>
  The body of the package loop (cogs.py 113-119, and 222-228 in \<open>update\<close>): the result says
  whether the package is removed from the unsatisfied ones.
\<close>

definition install_one_package ::
  "'r base_controller \<Rightarrow> string \<Rightarrow> 'r state \<Rightarrow> (bool \<times> 'r state) option" where
  "install_one_package B package s =
     (case install_package B package (registry s) of
        (return_code, r) \<Rightarrow>
          (if return_code = 0
           then Some (True, append_status ''installed_packages'' package
                              (send (Installed_package package) (s\<lparr>registry := r\<rparr>)))
           else Some (False, s\<lparr>registry := r\<rparr>)))"

text \<open>
  The package part of \<open>_install\<close> (cogs.py 109-130). \<open>Inl\<close> is a \<^verbatim>\<open>return False\<close> with the
  state reached; \<open>Inr\<close> goes on to line 132 with the packages still unsatisfied.
\<close>

definition install_required_packages ::
  "'r base_controller \<Rightarrow> ctx \<Rightarrow> string \<Rightarrow> string list \<Rightarrow> 'r state
     \<Rightarrow> ('r state + (string list \<times> 'r state)) option" where
  "install_required_packages B ctx ext pkgs s =
     (if pkgs \<noteq> [] then
        (case wait_for_answer ctx (send Ask_install_packages s) of
           (answer, s1) \<Rightarrow>
             (if answer = Some True then
                (case for_removing (install_one_package B) pkgs 0 s1 of
                   None \<Rightarrow> None
                 | Some (rest, s2) \<Rightarrow>
                     (if rest \<noteq> []
                      then Some (Inl (extend_status ''failed_packages'' rest
                                        (send (Failed_to_install_packages rest) s2)))
                      else Some (Inr (rest, s2))))
              else Some (Inl (append_status ''failed_extensions'' ext
                                (send (Will_not_install_packages ext) s1)))))
      else Some (Inr (pkgs, s)))"

text \<open>
  \<open>_install\<close> (cogs.py 74-157). The result is, beside the state, either the exception
  that leaves the function (\<open>Inl\<close>) or the value the Python function returns (\<open>Inr\<close>):
  \<open>True\<close>, \<open>False\<close> or, where the function ends without a \<^verbatim>\<open>return\<close>, \<open>None\<close>. The first
  argument bounds the depth of the recursion: with none left there is no result.
\<close>

fun inner_install ::
  "nat \<Rightarrow> 'r base_controller \<Rightarrow> ctx \<Rightarrow> string \<Rightarrow> 'r state
     \<Rightarrow> ((raised + bool option) \<times> 'r state) option" where
  "inner_install 0 B ctx ext0 s0 = None"
| "inner_install (Suc n) B ctx ext0 s0 =
     (case ask_extension_name ctx ext0 s0 of
        Inl (e, s) \<Rightarrow> Some (Inl e, s)
      | Inr (ext, repository, s) \<Rightarrow>
          (case install_extension B ext repository (registry s) of
             (Inl ExtensionAlreadyInstalled, r) \<Rightarrow>
               Some (Inr (Some False), append_status ''failed_extensions'' ext
                       (send (Already_installed ext) (send (Installing ext) (s\<lparr>registry := r\<rparr>))))
           | (Inl ExtensionNotInIndex, r) \<Rightarrow>
               Some (Inr (Some False), append_status ''failed_extensions'' ext
                       (send (No_extension_called ext) (send (Installing ext) (s\<lparr>registry := r\<rparr>))))
           | (Inr None, r) \<Rightarrow>
               Some (Inr (Some True), append_status ''installed_extensions'' ext
                       (send (Installed_successfully ext) (send (Installing ext) (s\<lparr>registry := r\<rparr>))))
           | (Inr (Some u), r) \<Rightarrow>
               (case install_required_packages B ctx ext (packages u)
                       (send (Failed_to_install ext (packages u) (extensions u))
                          (send (Installing ext) (s\<lparr>registry := r\<rparr>))) of
                  None \<Rightarrow> None
                | Some (Inl s1) \<Rightarrow> Some (Inr (Some False), s1)
                | Some (Inr (pkgs, s1)) \<Rightarrow>
                    (if pkgs = [] \<and> extensions u \<noteq> [] then
                       (case wait_for_answer ctx (send (Ask_install_dependencies ext) s1) of
                          (answer, s2) \<Rightarrow>
                            (if answer = Some True then
                               (case for_removing_raising
                                       (\<lambda>d t. case inner_install n B ctx d t of
                                                 None \<Rightarrow> None
                                               | Some (Inl e, t') \<Rightarrow> Some (Inl e, t')
                                               | Some (Inr rc, t') \<Rightarrow> Some (Inr (rc = Some True), t'))
                                       (extensions u) 0 s2 of
                                  None \<Rightarrow> None
                                | Some (Inl e, s3) \<Rightarrow> Some (Inl e, s3)
                                | Some (Inr rest, s3) \<Rightarrow>
                                    (if rest \<noteq> []
                                     then Some (Inr (Some False), append_status ''failed_extensions'' ext
                                                  (send (Failed_dependencies ext) s3))
                                     else inner_install n B ctx ext s3))
                             else Some (Inr (Some False), append_status ''failed_extensions'' ext
                                          (send Will_not_install_dependencies s2))))
                     else Some (Inr None, s1)))))"

text \<open>
  The loop over the requested names (cogs.py 159-160); an exception that leaves \<open>_install\<close>
  leaves the loop.
\<close>

fun install_each ::
  "nat \<Rightarrow> 'r base_controller \<Rightarrow> ctx \<Rightarrow> string list \<Rightarrow> 'r state
     \<Rightarrow> ((raised + unit) \<times> 'r state) option" where
  "install_each n B ctx [] s = Some (Inr (), s)"
| "install_each n B ctx (e # es) s =
     (case inner_install n B ctx e s of
        None \<Rightarrow> None
      | Some (Inl x, s') \<Rightarrow> Some (Inl x, s')
      | Some (Inr rc, s') \<Rightarrow> install_each n B ctx es s')"

text \<open>The end of a batch (cogs.py 177-183, 287-293, 355-361): the restart question.\<close>

definition offer_restart :: "ctx \<Rightarrow> 'r state \<Rightarrow> 'r state" where
  "offer_restart ctx s =
     (case wait_for_answer ctx (send Restart_question s) of
        (answer, s1) \<Rightarrow>
          (if answer = Some True
           then (let s2 = send Be_right_back s1
                 in s2\<lparr>store := restart (ctx_channel ctx) (store s2)\<rparr>)
           else s1))"

text \<open>
  \<open>Core.install\<close> (cogs.py 59-183) on the argument text \<open>arg\<close>; \<open>n\<close> bounds the depth of
  \<open>_install\<close> for each name. An exception that leaves the loop of lines 159-160 leaves
  the handler (\<open>Inl\<close>): the lines after the loop are not run, and bot.py has no handler
  for the error of a command that would send a message. \<open>Inr\<close> is the handler's return.
\<close>

definition install ::
  "nat \<Rightarrow> 'r base_controller \<Rightarrow> ctx \<Rightarrow> string \<Rightarrow> 'r state \<Rightarrow> ((raised + unit) \<times> 'r state) option" where
  "install n B ctx arg s =
     (case install_each n B ctx (py_split (py_lower arg)) (s\<lparr>status := \<lambda>key. []\<rparr>) of
        None \<Rightarrow> None
      | Some (Inl e, s1) \<Rightarrow> Some (Inl e, s1)
      | Some (Inr u, s1) \<Rightarrow>
          (let installation_status = status s1;
               s2 = send (Installation_completed
                            (installation_status ''installed_extensions'')
                            (installation_status ''installed_packages'')
                            (installation_status ''failed_extensions'')
                            (installation_status ''failed_packages'')) s1
           in if installation_status ''installed_extensions'' \<noteq> []
              then Some (Inr (), offer_restart ctx s2) else Some (Inr (), s2)))"

section \<open>The \<open>uninstall\<close> command\<close>

text \<open>
  \<open>_uninstall\<close> (cogs.py 305-341), with the depth of the recursion bounded as for
  \<open>_install\<close>.
\<close>

fun inner_uninstall ::
  "nat \<Rightarrow> 'r base_controller \<Rightarrow> ctx \<Rightarrow> string \<Rightarrow> 'r state \<Rightarrow> (bool option \<times> 'r state) option" where
  "inner_uninstall 0 B ctx ext s = None"
| "inner_uninstall (Suc n) B ctx ext s =
     (case uninstall_extension B ext (registry s) of
        (Inl ExtensionNotFound, r) \<Rightarrow>
          Some (Some False, append_status ''failed_extensions'' ext
                  (send (Could_not_be_found ext) (send (Uninstalling ext) (s\<lparr>registry := r\<rparr>))))
      | (Inr to_cascade, r) \<Rightarrow>
          (if to_cascade \<noteq> [] then
             (case wait_for_answer ctx
                     (send Proceed_with_uninstallation
                        (send (Would_be_uninstalled_too ext to_cascade)
                           (send (Uninstalling ext) (s\<lparr>registry := r\<rparr>)))) of
                (answer, s1) \<Rightarrow>
                  (if answer = Some True then
                     (case for_removing
                             (\<lambda>d t. map_option (\<lambda>(rc, t'). (rc = Some True, t'))
                                       (inner_uninstall n B ctx d t))
                             to_cascade 0 s1 of
                        None \<Rightarrow> None
                      | Some (rest, s2) \<Rightarrow>
                          (if rest \<noteq> []
                           then Some (Some False, append_status ''failed_extensions'' ext
                                        (send (Failed_to_uninstall rest) s2))
                           else inner_uninstall n B ctx ext s2))
                   else Some (Some False, append_status ''failed_extensions'' ext
                                (send Will_not_uninstall s1))))
           else Some (Some True, append_status ''uninstalled_extensions'' ext
                        (send (Uninstalled_successfully ext)
                           (send (Uninstalling ext) (s\<lparr>registry := r\<rparr>))))))"

fun uninstall_each ::
  "nat \<Rightarrow> 'r base_controller \<Rightarrow> ctx \<Rightarrow> string list \<Rightarrow> 'r state \<Rightarrow> 'r state option" where
  "uninstall_each n B ctx [] s = Some s"
| "uninstall_each n B ctx (e # es) s =
     (case inner_uninstall n B ctx e s of
        None \<Rightarrow> None
      | Some (rc, s') \<Rightarrow> uninstall_each n B ctx es s')"

text \<open>\<open>Core.uninstall\<close> (cogs.py 297-361).\<close>

definition uninstall :: "nat \<Rightarrow> 'r base_controller \<Rightarrow> ctx \<Rightarrow> string \<Rightarrow> 'r state \<Rightarrow> 'r state option" where
  "uninstall n B ctx arg s =
     (case uninstall_each n B ctx (py_split (py_lower arg)) (s\<lparr>status := \<lambda>key. []\<rparr>) of
        None \<Rightarrow> None
      | Some s1 \<Rightarrow>
          (let uninstall_status = status s1;
               s2 = send (Uninstallation_completed
                            (uninstall_status ''uninstalled_extensions'')
                            (uninstall_status ''failed_extensions'')) s1
           in if uninstall_status ''uninstalled_extensions'' \<noteq> []
              then Some (offer_restart ctx s2) else Some s2))"

section \<open>The \<open>update\<close> command\<close>

text \<open>
  The package part of \<open>_update\<close> (cogs.py 217-239); \<open>Inl\<close> and \<open>Inr\<close> as in
  \<open>install_required_packages\<close>.
\<close>

definition install_new_requirements ::
  "'r base_controller \<Rightarrow> ctx \<Rightarrow> string \<Rightarrow> string list \<Rightarrow> 'r state
     \<Rightarrow> ('r state + (string list \<times> 'r state)) option" where
  "install_new_requirements B ctx ext pkgs s =
     (if pkgs \<noteq> [] then
        (case wait_for_answer ctx (send (Ask_new_requirements ext) s) of
           (answer, s1) \<Rightarrow>
             (if answer = Some True then
                (case for_removing (install_one_package B) pkgs 0 s1 of
                   None \<Rightarrow> None
                 | Some (rest, s2) \<Rightarrow>
                     (if rest \<noteq> []
                      then Some (Inl (extend_status ''failed_packages'' rest
                                        (send (Failed_to_install_packages rest) s2)))
                      else Some (Inr (rest, s2))))
              else Some (Inl (append_status ''failed_to_install_extensions'' ext
                                (send (Will_not_install_packages ext) s1)))))
      else Some (Inr (pkgs, s)))"

text \<open>
  \<open>_update\<close> (cogs.py 195-267), with the depth of the recursion bounded. In the part on
  new dependencies (lines 241-262) the answer comes from \<open>wait_for_response\<close>, a message or
  \<open>None\<close>, so the test \<^verbatim>\<open>_answer is True\<close> of line 245 fails and \<open>install\<close> is not invoked.
  The loop of lines 248-258 returns in its first round, and the list it iterates is not
  empty, so the \<^verbatim>\<open>else\<close> of the loop (lines 259-262) is not reached.
\<close>

fun inner_update ::
  "nat \<Rightarrow> 'r base_controller \<Rightarrow> ctx \<Rightarrow> string \<Rightarrow> 'r state \<Rightarrow> (bool option \<times> 'r state) option" where
  "inner_update 0 B ctx ext s = None"
| "inner_update (Suc n) B ctx ext s =
     (case update_extension B ext (registry s) of
        (Inl ExtensionNotFound, r) \<Rightarrow>
          Some (Some False, append_status ''failed_extensions'' ext
                  (send (Could_not_be_found ext) (send (Updating ext) (s\<lparr>registry := r\<rparr>))))
      | (Inr None, r) \<Rightarrow>
          Some (Some True, append_status ''updated_extensions'' ext
                  (send (Updated_successfully ext) (send (Updating ext) (s\<lparr>registry := r\<rparr>))))
      | (Inr (Some u), r) \<Rightarrow>
          (case install_new_requirements B ctx ext (packages u)
                  (send (Failed_to_update ext (packages u) (extensions u))
                     (send (Updating ext) (s\<lparr>registry := r\<rparr>))) of
             None \<Rightarrow> None
           | Some (Inl s1) \<Rightarrow> Some (Some False, s1)
           | Some (Inr (pkgs, s1)) \<Rightarrow>
               (if pkgs = [] \<and> extensions u \<noteq> [] then
                  (case wait_for_response ctx (send (Ask_new_dependencies ext) s1) of
                     (answer, s2) \<Rightarrow>
                       (let exts = get_extensions B (registry s2);
                            extension_to_check = hd (extensions u);
                            rest = (if extension_to_check \<in> set exts
                                    then remove1 extension_to_check (extensions u)
                                    else extensions u)
                        in if rest \<noteq> []
                           then Some (Some False, append_status ''failed_extensions'' ext
                                        (send (Failed_new_dependencies ext) s2))
                           else inner_update n B ctx ext s2))
                else Some (None, s1))))"

fun update_each ::
  "nat \<Rightarrow> 'r base_controller \<Rightarrow> ctx \<Rightarrow> string list \<Rightarrow> 'r state \<Rightarrow> 'r state option" where
  "update_each n B ctx [] s = Some s"
| "update_each n B ctx (e # es) s =
     (case inner_update n B ctx e s of
        None \<Rightarrow> None
      | Some (rc, s') \<Rightarrow> update_each n B ctx es s')"

text \<open>\<open>Core.update\<close> (cogs.py 187-293).\<close>

definition update :: "nat \<Rightarrow> 'r base_controller \<Rightarrow> ctx \<Rightarrow> string \<Rightarrow> 'r state \<Rightarrow> 'r state option" where
  "update n B ctx arg s =
     (case update_each n B ctx (py_split (py_lower arg)) (s\<lparr>status := \<lambda>key. []\<rparr>) of
        None \<Rightarrow> None
      | Some s1 \<Rightarrow>
          (let update_status = status s1;
               s2 = send (Update_completed
                            (update_status ''updated_extensions'')
                            (update_status ''installed_packages'')
                            (update_status ''failed_extensions'')
                            (update_status ''failed_packages'')) s1
           in if update_status ''updated_extensions'' \<noteq> []
              then Some (case wait_for_response ctx (send Restart_question s2) of (answer, s3) \<Rightarrow> s3)
              else Some s2))"

section \<open>A registry after the spec\<close>

text \<open>
  Modelled from the spec: the registry behind \<open>BaseController\<close>, absent from the sources.
  An \<open>ExtensionDescriptor\<close> declares package and extension dependencies; the index resolves
  names to descriptors; the registry keeps the installed extensions in insertion order and
  the packages that are present. \<open>exit_code\<close> is the package manager.
\<close>

record descriptor =
  declared_package_deps :: "string list"
  declared_extension_deps :: "string list"

record registry_state =
  index :: "(string \<times> descriptor) list"
  installed :: "string list"
  present_packages :: "string list"
  exit_code :: "string \<Rightarrow> int"

definition closure_of :: "registry_state \<Rightarrow> descriptor \<Rightarrow> unsatisfied" where
  "closure_of reg d =
     \<lparr>packages = filter (\<lambda>p. p \<notin> set (present_packages reg)) (declared_package_deps d),
      extensions = filter (\<lambda>e. e \<notin> set (installed reg)) (declared_extension_deps d)\<rparr>"

text \<open>
  Modelled from the spec: \<open>install(name, source_repository)\<close> fails with
  \<open>AlreadyInstalled\<close> if the name is installed and with \<open>NotInIndex\<close> if the index cannot
  resolve it; with an empty closure it creates the record, otherwise it reports the closure.
\<close>

definition reg_install ::
  "string \<Rightarrow> string option \<Rightarrow> registry_state \<Rightarrow> (install_error + unsatisfied option) \<times> registry_state" where
  "reg_install name repository reg =
     (if name \<in> set (installed reg) then (Inl ExtensionAlreadyInstalled, reg)
      else case map_of (index reg) name of
             None \<Rightarrow> (Inl ExtensionNotInIndex, reg)
           | Some d \<Rightarrow>
               (let u = closure_of reg d
                in if packages u = [] \<and> extensions u = []
                   then (Inr None, reg\<lparr>installed := installed reg @ [name]\<rparr>)
                   else (Inr (Some u), reg)))"

text \<open>
  Modelled from the spec: \<open>update(name)\<close> fails with \<open>NotFound\<close> if the name is not
  installed; it resolves the descriptor again and reports the dependencies that are not
  satisfied.
\<close>

definition reg_update ::
  "string \<Rightarrow> registry_state \<Rightarrow> (lookup_error + unsatisfied option) \<times> registry_state" where
  "reg_update name reg =
     (if name \<notin> set (installed reg) then (Inl ExtensionNotFound, reg)
      else case map_of (index reg) name of
             None \<Rightarrow> (Inr None, reg)
           | Some d \<Rightarrow>
               (let u = closure_of reg d
                in if packages u = [] \<and> extensions u = [] then (Inr None, reg)
                   else (Inr (Some u), reg)))"

text \<open>
  Modelled from the spec: the reverse-dependency lookup of the registry, absent from the
  sources: the installed extensions whose declared extension dependencies include \<open>name\<close>,
  found by scanning the installed records.
\<close>

definition declares_dependency :: "registry_state \<Rightarrow> string \<Rightarrow> string \<Rightarrow> bool" where
  "declares_dependency reg name e =
     (case map_of (index reg) e of
        None \<Rightarrow> False
      | Some d \<Rightarrow> name \<in> set (declared_extension_deps d))"

definition dependents :: "registry_state \<Rightarrow> string \<Rightarrow> string list" where
  "dependents reg name = filter (declares_dependency reg name) (installed reg)"

text \<open>
  Modelled from the spec: \<open>uninstall(name)\<close> fails with \<open>NotFound\<close> if the name is not
  installed; it returns the cascade set, and removes the record of \<open>name\<close> only once that
  set is empty.
\<close>

definition reg_uninstall ::
  "string \<Rightarrow> registry_state \<Rightarrow> (lookup_error + string list) \<times> registry_state" where
  "reg_uninstall name reg =
     (if name \<notin> set (installed reg) then (Inl ExtensionNotFound, reg)
      else (let to_cascade = dependents reg name
            in if to_cascade = []
               then (Inr [], reg\<lparr>installed := removeAll name (installed reg)\<rparr>)
               else (Inr to_cascade, reg)))"

text \<open>
  Modelled from the spec: the package manager collaborator,
  \<open>install_package(name) -> exit_code\<close>; a package installed with exit code 0 is present.
\<close>

definition reg_install_package :: "string \<Rightarrow> registry_state \<Rightarrow> int \<times> registry_state" where
  "reg_install_package p reg =
     (let rc = exit_code reg p
      in (rc, if rc = 0 then reg\<lparr>present_packages := present_packages reg @ [p]\<rparr> else reg))"

text \<open>
  Modelled from the spec: the operations above as the \<open>BaseController\<close> the handlers call;
  \<open>get_extensions\<close> lists the installed extensions.
\<close>

definition registry_base :: "registry_state base_controller" where
  "registry_base =
     \<lparr>install_extension = reg_install,
      update_extension = reg_update,
      uninstall_extension = reg_uninstall,
      install_package = reg_install_package,
      get_extensions = installed\<rparr>"

section \<open>Observations on the messages of a batch\<close>

text \<open>
  \<open>per_item\<close> holds for the messages sent while the items of a batch are processed: all but
  the aggregated report of \<open>install\<close>, the restart question and its acknowledgement.
  \<open>installed_name\<close> reads the name off the message that reports a successful installation.
  \<open>batch_inv pre s\<close> says that since the outbox was \<open>pre\<close> only such messages were sent, and
  that the names entered under \<open>installed_extensions\<close> are those reported as installed.
\<close>

fun per_item :: "msg \<Rightarrow> bool" where
  "per_item (Installation_completed a b c d) = False"
| "per_item Restart_question = False"
| "per_item Be_right_back = False"
| "per_item _ = True"

fun installed_name :: "msg \<Rightarrow> string list" where
  "installed_name (Installed_successfully e) = [e]"
| "installed_name _ = []"

definition batch_inv :: "msg list \<Rightarrow> 'r state \<Rightarrow> bool" where
  "batch_inv pre s \<longleftrightarrow>
     length pre \<le> length (outbox s) \<and> take (length pre) (outbox s) = pre \<and>
     (\<forall>m \<in> set (drop (length pre) (outbox s)). per_item m) \<and>
     status s ''installed_extensions'' = concat (map installed_name (drop (length pre) (outbox s)))"

text \<open>
  \<open>removal_inv r0 s\<close> relates the registry of \<open>s\<close> to an earlier registry \<open>r0\<close>: the index is
  the same, no extension was added, and an extension of \<open>r0\<close> that is gone has no installed
  dependent.
\<close>

definition removal_inv :: "registry_state \<Rightarrow> registry_state state \<Rightarrow> bool" where
  "removal_inv r0 s \<longleftrightarrow>
     index (registry s) = index r0 \<and>
     set (installed (registry s)) \<subseteq> set (installed r0) \<and>
     (\<forall>a \<in> set (installed r0). a \<notin> set (installed (registry s)) \<longrightarrow> dependents (registry s) a = [])"

section \<open>Concrete inputs\<close>

text \<open>
  The owner, with id 1, invokes commands in channel 7 of guild 3. \<open>reply\<close> is a message of
  the owner in that channel.
\<close>

definition owner_ctx :: ctx where
  "owner_ctx = \<lparr>ctx_author = 1, ctx_channel = 7, ctx_guild = Some 3, author_is_bot = False\<rparr>"

definition reply :: "string \<Rightarrow> event" where
  "reply text = Message \<lparr>author = 1, channel = 7, content = text\<rparr>"

definition settings :: cache where
  "settings = \<lparr>prefixes = Some [''!''], owner = Some 1, restarted_from = None, published = []\<rparr>"

definition initial_state :: "'r \<Rightarrow> event list \<Rightarrow> 'r state" where
  "initial_state reg evs =
     \<lparr>registry = reg, store = settings, command_prefix = [''!''], guilds = [3],
      inbox = evs, outbox = [], status = (\<lambda>key. [])\<rparr>"

text \<open>
  An index with \<open>weather\<close>, which declares the package \<open>requests-lib\<close>, \<open>clock\<close> without
  dependencies, and \<open>radar\<close>, which declares the extension \<open>weather\<close>; a package manager that
  returns 0 for every package.
\<close>

definition weather_index :: "(string \<times> descriptor) list" where
  "weather_index =
     [(''weather'', \<lparr>declared_package_deps = [''requests-lib''], declared_extension_deps = []\<rparr>),
      (''clock'', \<lparr>declared_package_deps = [], declared_extension_deps = []\<rparr>),
      (''radar'', \<lparr>declared_package_deps = [], declared_extension_deps = [''weather'']\<rparr>)]"

definition weather_registry :: "string list \<Rightarrow> registry_state" where
  "weather_registry exts =
     \<lparr>index = weather_index, installed = exts, present_packages = [], exit_code = (\<lambda>p. 0)\<rparr>"

section \<open>Properties\<close>

subsection \<open>Waiting, loops and the invariant of an install batch\<close>

lemma wait_for_length:
  "wait_for check evs = (r, evs') \<Longrightarrow>
     length evs' \<le> length evs \<and> (r \<noteq> None \<longrightarrow> length evs' < length evs)"
  by (induction check evs rule: wait_for.induct) (auto split: if_splits)

lemma wait_for_answer_effect:
  assumes "wait_for_answer ctx s = (a, s')"
  shows "outbox s' = outbox s" "status s' = status s" "registry s' = registry s"
    "length (inbox s') \<le> length (inbox s)" "a \<noteq> None \<Longrightarrow> length (inbox s') < length (inbox s)"
  using assms wait_for_length [of "is_response ctx" "inbox s"]
  by (auto simp: wait_for_answer_def split: prod.splits option.splits)

lemma for_removing_invariant:
  "(\<And>x t ok t'. I t \<Longrightarrow> body x t = Some (ok, t') \<Longrightarrow> I t') \<Longrightarrow>
   I s \<Longrightarrow> for_removing body xs i s = Some (ys, s') \<Longrightarrow> I s'"
proof (induction body xs i s rule: for_removing.induct)
  case (1 body xs i s)
  show ?case
  proof (cases "i < length xs")
    case False
    with "1.prems"(2,3) show ?thesis by (simp add: for_removing.simps [of body xs i s])
  next
    case True
    with "1.prems"(3) obtain ok t where b: "body (xs ! i) s = Some (ok, t)"
      and r: "for_removing body (if ok then remove1 (xs ! i) xs else xs) (Suc i) t = Some (ys, s')"
      by (auto simp: for_removing.simps [of body xs i s] split: option.splits)
    from "1.prems"(1,2) b have "I t" by blast
    with "1.IH" [OF True b refl] "1.prems"(1) r show ?thesis by blast
  qed
qed


lemma for_removing_raising_invariant:
  "(\<And>x t r t'. I t \<Longrightarrow> body x t = Some (r, t') \<Longrightarrow> I t') \<Longrightarrow>
   I s \<Longrightarrow> for_removing_raising body xs i s = Some (res, s') \<Longrightarrow> I s'"
proof (induction body xs i s rule: for_removing_raising.induct)
  case (1 body xs i s)
  show ?case
  proof (cases "i < length xs")
    case False
    with "1.prems"(2,3) show ?thesis by (simp add: for_removing_raising.simps [of body xs i s])
  next
    case True
    with "1.prems"(3) obtain r t where b: "body (xs ! i) s = Some (r, t)"
      by (auto simp: for_removing_raising.simps [of body xs i s] split: option.splits)
    from "1.prems"(1,2) b have it: "I t" by blast
    show ?thesis
    proof (cases r)
      case (Inl e)
      with "1.prems"(3) True b it show ?thesis
        by (simp add: for_removing_raising.simps [of body xs i s])
    next
      case (Inr ok)
      with "1.prems"(3) True b
      have rec: "for_removing_raising body (if ok then remove1 (xs ! i) xs else xs) (Suc i) t = Some (res, s')"
        by (simp add: for_removing_raising.simps [of body xs i s])
      from "1.IH" [OF True b refl Inr "1.prems"(1) it rec] show ?thesis .
    qed
  qed
qed

lemma batch_inv_send:
  "per_item m \<Longrightarrow> installed_name m = [] \<Longrightarrow> batch_inv k s \<Longrightarrow> batch_inv k (send m s)"
  by (auto simp: batch_inv_def send_def)

lemma batch_inv_append_status:
  "key \<noteq> ''installed_extensions'' \<Longrightarrow> batch_inv k s \<Longrightarrow> batch_inv k (append_status key x s)"
  by (auto simp: batch_inv_def append_status_def)

lemma batch_inv_extend_status:
  "key \<noteq> ''installed_extensions'' \<Longrightarrow> batch_inv k s \<Longrightarrow> batch_inv k (extend_status key xs s)"
  by (auto simp: batch_inv_def extend_status_def)

lemma batch_inv_registry [simp]:
  "batch_inv k (s\<lparr>registry := r\<rparr>) = batch_inv k s"
  by (simp add: batch_inv_def)

lemma batch_inv_inbox [simp]:
  "batch_inv k (s\<lparr>inbox := evs\<rparr>) = batch_inv k s"
  by (simp add: batch_inv_def)

lemma batch_inv_installed:
  "batch_inv k s \<Longrightarrow>
   batch_inv k (append_status ''installed_extensions'' e (send (Installed_successfully e) s))"
  by (auto simp: batch_inv_def append_status_def send_def)

lemma batch_inv_answer:
  "wait_for_answer ctx s = (a, s') \<Longrightarrow> batch_inv k s' = batch_inv k s"
  by (auto simp: wait_for_answer_def split: prod.splits option.splits)

lemmas batch_inv_intros =
  batch_inv_send batch_inv_append_status batch_inv_extend_status batch_inv_installed

lemma install_one_package_inv:
  "batch_inv k s \<Longrightarrow> install_one_package B p s = Some (ok, s') \<Longrightarrow> batch_inv k s'"
  by (auto simp: install_one_package_def split: prod.splits if_splits intro!: batch_inv_intros)

lemma install_required_packages_inv:
  assumes "batch_inv k s" "install_required_packages B ctx ext pkgs s = Some res"
  shows "case res of Inl s' \<Rightarrow> batch_inv k s' | Inr (rest, s') \<Rightarrow> batch_inv k s'"
proof (cases "pkgs = []")
  case True
  with assms show ?thesis by (auto simp: install_required_packages_def)
next
  case False
  obtain a s1 where w: "wait_for_answer ctx (send Ask_install_packages s) = (a, s1)"
    by (cases "wait_for_answer ctx (send Ask_install_packages s)")
  from assms(1) have i1: "batch_inv k s1"
    using batch_inv_answer [OF w] by (simp add: batch_inv_send)
  show ?thesis
  proof (cases "a = Some True")
    case True
    with assms(2) False w obtain rest s2
      where l: "for_removing (install_one_package B) pkgs 0 s1 = Some (rest, s2)"
      by (auto simp: install_required_packages_def split: option.splits)
    have "batch_inv k s2"
      using for_removing_invariant [where I = "batch_inv k", OF install_one_package_inv i1 l] .
    with assms(2) False w True l show ?thesis
      by (auto simp: install_required_packages_def split: if_splits intro!: batch_inv_intros)
  next
    case nt: False
    with assms(2) False w i1 show ?thesis
      by (auto simp: install_required_packages_def intro!: batch_inv_intros)
  qed
qed

lemma ask_extension_name_inv:
  "batch_inv k s \<Longrightarrow> ask_extension_name ctx e s = res \<Longrightarrow>
   (case res of Inl (x, s') \<Rightarrow> batch_inv k s' | Inr (x, r, s') \<Rightarrow> batch_inv k s')"
  by (auto simp: ask_extension_name_def client_wait_for_def Let_def
      split: prod.splits option.splits if_splits intro!: batch_inv_intros)

lemma inner_install_inv:
  "batch_inv k s \<Longrightarrow> inner_install n B ctx e s = Some (rc, s') \<Longrightarrow> batch_inv k s'"
proof (induction n arbitrary: e s rc s')
  case 0
  then show ?case by simp
next
  case (Suc n)
  let ?body = "\<lambda>d t. case inner_install n B ctx d t of
                        None \<Rightarrow> None
                      | Some (Inl e, t') \<Rightarrow> Some (Inl e, t')
                      | Some (Inr rc, t') \<Rightarrow> Some (Inr (rc = Some True), t')"
  have body: "\<And>x t r t'. batch_inv k t \<Longrightarrow> ?body x t = Some (r, t') \<Longrightarrow> batch_inv k t'"
    using Suc.IH by (auto split: option.splits sum.splits)
  show ?case
  proof (cases "ask_extension_name ctx e s")
    case (Inl xt)
    obtain x t where xt: "xt = (x, t)" by (cases xt)
    with Suc.prems ask_extension_name_inv [OF Suc.prems(1) Inl] Inl show ?thesis by simp
  next
    case (Inr nrt)
    obtain ext repository t where nrt: "nrt = (ext, repository, t)" by (cases nrt)
    from ask_extension_name_inv [OF Suc.prems(1) Inr] nrt have it: "batch_inv k t" by simp
    obtain res r where ie: "install_extension B ext repository (registry t) = (res, r)"
      by (cases "install_extension B ext repository (registry t)")
    let ?t1 = "send (Installing ext) (t\<lparr>registry := r\<rparr>)"
    from it have i1: "batch_inv k ?t1" by (simp add: batch_inv_send)
    show ?thesis
    proof (cases res)
      case (Inl err)
      with Suc.prems(2) Inr nrt ie i1 show ?thesis
        by (cases err) (auto intro!: batch_inv_intros)
    next
      case (Inr uo)
      note res = this
      show ?thesis
      proof (cases uo)
        case None
        with Suc.prems(2) \<open>ask_extension_name ctx e s = Inr nrt\<close> nrt ie i1 res show ?thesis
          by (auto intro!: batch_inv_intros)
      next
        case (Some u)
        let ?t2 = "send (Failed_to_install ext (packages u) (extensions u)) ?t1"
        from i1 have i2: "batch_inv k ?t2" by (simp add: batch_inv_send)
        from Suc.prems(2) \<open>ask_extension_name ctx e s = Inr nrt\<close> nrt ie res Some
        obtain pres where pk: "install_required_packages B ctx ext (packages u) ?t2 = Some pres"
          by (auto split: option.splits)
        note pinv = install_required_packages_inv [OF i2 pk]
        show ?thesis
        proof (cases pres)
          case (Inl t3)
          with Suc.prems(2) \<open>ask_extension_name ctx e s = Inr nrt\<close> nrt ie res Some pk pinv
          show ?thesis by auto
        next
          case (Inr pt)
          obtain pkgs t3 where pt: "pt = (pkgs, t3)" by (cases pt)
          from pinv Inr pt have i3: "batch_inv k t3" by simp
          note unfold = Suc.prems(2) \<open>ask_extension_name ctx e s = Inr nrt\<close> nrt ie res Some pk Inr pt
          show ?thesis
          proof (cases "pkgs = [] \<and> extensions u \<noteq> []")
            case False
            with unfold i3 show ?thesis by auto
          next
            case True
            obtain a t4 where w: "wait_for_answer ctx (send (Ask_install_dependencies ext) t3) = (a, t4)"
              by (cases "wait_for_answer ctx (send (Ask_install_dependencies ext) t3)")
            from i3 have i4: "batch_inv k t4"
              using batch_inv_answer [OF w] by (simp add: batch_inv_send)
            show ?thesis
            proof (cases "a = Some True")
              case False
              with unfold True w i4 show ?thesis
                by (auto intro!: batch_inv_intros)
            next
              case yes: True
              with unfold True w obtain lres t5
                where l: "for_removing_raising ?body (extensions u) 0 t4 = Some (lres, t5)"
                by (auto split: option.splits)
              have i5: "batch_inv k t5"
                using for_removing_raising_invariant
                  [where I = "batch_inv k" and body = ?body, OF body i4 l] .
              show ?thesis
              proof (cases lres)
                case (Inl x)
                with unfold \<open>pkgs = [] \<and> extensions u \<noteq> []\<close> w yes l i5 show ?thesis by simp
              next
                case (Inr rest)
                show ?thesis
                proof (cases "rest = []")
                  case True
                  with unfold \<open>pkgs = [] \<and> extensions u \<noteq> []\<close> w yes l Inr
                  have "inner_install n B ctx ext t5 = Some (rc, s')" by simp
                  with Suc.IH i5 show ?thesis by blast
                next
                  case False
                  with unfold \<open>pkgs = [] \<and> extensions u \<noteq> []\<close> w yes l Inr i5 show ?thesis
                    by (auto intro!: batch_inv_intros)
                qed
              qed
            qed
          qed
        qed
      qed
    qed
  qed
qed

lemma for_removing_total:
  "(\<And>x t. \<mu> t \<le> (b::nat) \<Longrightarrow> \<exists>ok t'. body x t = Some (ok, t') \<and> \<mu> t' \<le> \<mu> t) \<Longrightarrow>
   \<mu> s \<le> b \<Longrightarrow> \<exists>ys s'. for_removing body xs i s = Some (ys, s') \<and> \<mu> s' \<le> \<mu> s"
proof (induction body xs i s rule: for_removing.induct)
  case (1 body xs i s)
  show ?case
  proof (cases "i < length xs")
    case False
    then show ?thesis by (simp add: for_removing.simps [of body xs i s])
  next
    case True
    from "1.prems" obtain ok t where b: "body (xs ! i) s = Some (ok, t)" and le: "\<mu> t \<le> \<mu> s"
      by blast
    from le "1.prems"(2) have "\<mu> t \<le> b" by simp
    from "1.IH" [OF True b refl "1.prems"(1) this]
    obtain ys s' where "for_removing body (if ok then remove1 (xs ! i) xs else xs) (Suc i) t = Some (ys, s')"
      and "\<mu> s' \<le> \<mu> t" by blast
    with True b le show ?thesis
      by (auto simp: for_removing.simps [of body xs i s])
  qed
qed

lemma for_removing_raising_total:
  "(\<And>x t. \<mu> t \<le> (b::nat) \<Longrightarrow> \<exists>r t'. body x t = Some (r, t') \<and> \<mu> t' \<le> \<mu> t) \<Longrightarrow>
   \<mu> s \<le> b \<Longrightarrow> \<exists>res s'. for_removing_raising body xs i s = Some (res, s') \<and> \<mu> s' \<le> \<mu> s"
proof (induction body xs i s rule: for_removing_raising.induct)
  case (1 body xs i s)
  show ?case
  proof (cases "i < length xs")
    case False
    then show ?thesis by (simp add: for_removing_raising.simps [of body xs i s])
  next
    case True
    from "1.prems" obtain r t where b: "body (xs ! i) s = Some (r, t)" and le: "\<mu> t \<le> \<mu> s"
      by blast
    from le "1.prems"(2) have tb: "\<mu> t \<le> b" by simp
    show ?thesis
    proof (cases r)
      case (Inl e)
      with True b le show ?thesis
        by (simp add: for_removing_raising.simps [of body xs i s])
    next
      case (Inr ok)
      from "1.IH" [OF True b refl Inr "1.prems"(1) tb]
      obtain res s' where
        "for_removing_raising body (if ok then remove1 (xs ! i) xs else xs) (Suc i) t = Some (res, s')"
        and "\<mu> s' \<le> \<mu> t" by blast
      with True b le Inr show ?thesis
        by (auto simp: for_removing_raising.simps [of body xs i s])
    qed
  qed
qed

lemma install_one_package_total:
  "\<exists>ok t'. install_one_package B p t = Some (ok, t') \<and> length (inbox t') \<le> length (inbox t)"
  by (auto simp: install_one_package_def send_def append_status_def split: prod.splits)

lemma install_required_packages_total:
  "\<exists>res. install_required_packages B ctx ext pkgs s = Some res \<and>
     (case res of Inl s' \<Rightarrow> length (inbox s') \<le> length (inbox s)
      | Inr (rest, s') \<Rightarrow> length (inbox s') \<le> length (inbox s))"
proof (cases "pkgs = []")
  case True
  then show ?thesis by (simp add: install_required_packages_def)
next
  case False
  obtain a s1 where w: "wait_for_answer ctx (send Ask_install_packages s) = (a, s1)"
    by (cases "wait_for_answer ctx (send Ask_install_packages s)")
  from wait_for_answer_effect(4) [OF w] have l1: "length (inbox s1) \<le> length (inbox s)"
    by (simp add: send_def)
  show ?thesis
  proof (cases "a = Some True")
    case True
    obtain rest s2 where l: "for_removing (install_one_package B) pkgs 0 s1 = Some (rest, s2)"
      and l2: "length (inbox s2) \<le> length (inbox s1)"
      using for_removing_total [where \<mu> = "\<lambda>t. length (inbox t)" and body = "install_one_package B"
          and b = "length (inbox s1)" and s = s1 and xs = pkgs and i = 0]
        install_one_package_total [of B]
      by auto
    with False w True l1 show ?thesis
      by (auto simp: install_required_packages_def send_def extend_status_def)
  next
    case nt: False
    with False w l1 show ?thesis
      by (auto simp: install_required_packages_def send_def append_status_def)
  qed
qed

lemma ask_extension_name_length:
  "ask_extension_name ctx e s = res \<Longrightarrow>
   (case res of Inl (x, s') \<Rightarrow> length (inbox s') \<le> length (inbox s)
    | Inr (x, r, s') \<Rightarrow> length (inbox s') \<le> length (inbox s))"
  using wait_for_length [of "extension_check ctx" "inbox s"]
  by (auto simp: ask_extension_name_def client_wait_for_def Let_def send_def
      split: prod.splits option.splits if_splits)

lemma inner_install_total:
  "length (inbox (s :: 'r state)) < n \<Longrightarrow>
   \<exists>rc s'. inner_install n B ctx e s = Some (rc, s') \<and> length (inbox s') \<le> length (inbox s)"
proof (induction n arbitrary: e s)
  case 0
  then show ?case by simp
next
  case (Suc n)
  let ?body = "\<lambda>d t. case inner_install n B ctx d t of
                        None \<Rightarrow> None
                      | Some (Inl e, t') \<Rightarrow> Some (Inl e, t')
                      | Some (Inr rc, t') \<Rightarrow> Some (Inr (rc = Some True), t')"
  show ?case
  proof (cases "ask_extension_name ctx e s")
    case (Inl xt)
    obtain x t where xt: "xt = (x, t)" by (cases xt)
    with ask_extension_name_length [OF Inl] Inl show ?thesis by simp
  next
    case (Inr nrt)
    note ask = this
    obtain ext repository t where nrt: "nrt = (ext, repository, t)" by (cases nrt)
    from ask_extension_name_length [OF Inr] nrt have lt: "length (inbox t) \<le> length (inbox s)" by simp
    obtain res r where ie: "install_extension B ext repository (registry t) = (res, r)"
      by (cases "install_extension B ext repository (registry t)")
    let ?t1 = "send (Installing ext) (t\<lparr>registry := r\<rparr>)"
    show ?thesis
    proof (cases res)
      case (Inl err)
      with ask nrt ie lt show ?thesis
        by (cases err) (auto simp: send_def append_status_def)
    next
      case (Inr uo)
      note res = this
      show ?thesis
      proof (cases uo)
        case None
        with ask nrt ie lt res show ?thesis
          by (auto simp: send_def append_status_def)
      next
        case (Some u)
        let ?t2 = "send (Failed_to_install ext (packages u) (extensions u)) ?t1"
        obtain pres where pk: "install_required_packages B ctx ext (packages u) ?t2 = Some pres"
          and pl: "case pres of Inl s' \<Rightarrow> length (inbox s') \<le> length (inbox ?t2)
                   | Inr (rest, s') \<Rightarrow> length (inbox s') \<le> length (inbox ?t2)"
          using install_required_packages_total [of B ctx ext "packages u" ?t2] by blast
        have l2: "length (inbox ?t2) \<le> length (inbox s)" using lt by (simp add: send_def)
        show ?thesis
        proof (cases pres)
          case (Inl t3)
          with ask nrt ie res Some pk pl l2 show ?thesis by auto
        next
          case (Inr pt)
          obtain pkgs t3 where pt: "pt = (pkgs, t3)" by (cases pt)
          from pl Inr pt l2 have l3: "length (inbox t3) \<le> length (inbox s)" by simp
          note unfold = ask nrt ie res Some pk Inr pt
          show ?thesis
          proof (cases "pkgs = [] \<and> extensions u \<noteq> []")
            case False
            with unfold l3 show ?thesis by auto
          next
            case True
            obtain a t4 where w: "wait_for_answer ctx (send (Ask_install_dependencies ext) t3) = (a, t4)"
              by (cases "wait_for_answer ctx (send (Ask_install_dependencies ext) t3)")
            from wait_for_answer_effect(4) [OF w] l3
            have l4: "length (inbox t4) \<le> length (inbox s)" by (simp add: send_def)
            show ?thesis
            proof (cases "a = Some True")
              case False
              with unfold True w l4 show ?thesis
                by (auto simp: send_def append_status_def)
            next
              case yes: True
              from wait_for_answer_effect(5) [OF w] yes l3
              have "length (inbox t4) < length (inbox s)" by (simp add: send_def)
              with Suc.prems have l4': "length (inbox t4) < n" by simp
              have body: "\<And>x t. length (inbox t) \<le> length (inbox t4) \<Longrightarrow>
                  \<exists>r t'. ?body x t = Some (r, t') \<and> length (inbox t') \<le> length (inbox t)"
              proof -
                fix x and t :: "'r state" assume "length (inbox t) \<le> length (inbox t4)"
                with l4' have "length (inbox t) < n" by simp
                from Suc.IH [OF this, of x]
                show "\<exists>r t'. ?body x t = Some (r, t') \<and> length (inbox t') \<le> length (inbox t)"
                  by (auto split: sum.splits)
              qed
              obtain lres t5 where l: "for_removing_raising ?body (extensions u) 0 t4 = Some (lres, t5)"
                and l5: "length (inbox t5) \<le> length (inbox t4)"
                using for_removing_raising_total [where \<mu> = "\<lambda>t. length (inbox t)" and body = ?body
                    and b = "length (inbox t4)" and s = t4 and xs = "extensions u" and i = 0, OF body]
                by auto
              show ?thesis
              proof (cases lres)
                case (Inl x)
                with unfold \<open>pkgs = [] \<and> extensions u \<noteq> []\<close> w yes l l5 l4 show ?thesis by simp
              next
                case (Inr rest)
                show ?thesis
                proof (cases "rest = []")
                  case True
                  from l5 l4' have "length (inbox t5) < n" by simp
                  from Suc.IH [OF this, of ext] obtain rc s'
                    where "inner_install n B ctx ext t5 = Some (rc, s')"
                      and "length (inbox s') \<le> length (inbox t5)" by blast
                  with unfold \<open>pkgs = [] \<and> extensions u \<noteq> []\<close> w yes l Inr True l5 l4 show ?thesis
                    by simp
                next
                  case False
                  with unfold \<open>pkgs = [] \<and> extensions u \<noteq> []\<close> w yes l Inr l5 l4 show ?thesis
                    by (simp add: send_def append_status_def)
                qed
              qed
            qed
          qed
        qed
      qed
    qed
  qed
qed

lemma install_each_inv:
  "batch_inv k s \<Longrightarrow> install_each n B ctx es s = Some (res, s') \<Longrightarrow> batch_inv k s'"
proof (induction es arbitrary: s)
  case Nil
  then show ?case by simp
next
  case (Cons e es)
  from Cons.prems(2) obtain r t where i: "inner_install n B ctx e s = Some (r, t)"
    by (auto split: option.splits)
  from inner_install_inv [OF Cons.prems(1) i] have it: "batch_inv k t" .
  show ?case
  proof (cases r)
    case (Inl x)
    with Cons.prems(2) i it show ?thesis by simp
  next
    case (Inr rc)
    with Cons.prems(2) i have "install_each n B ctx es t = Some (res, s')" by simp
    with Cons.IH it show ?thesis by blast
  qed
qed

lemma install_each_total:
  "length (inbox (s :: 'r state)) < n \<Longrightarrow>
   \<exists>res s'. install_each n B ctx es s = Some (res, s') \<and> length (inbox s') \<le> length (inbox s)"
proof (induction es arbitrary: s)
  case Nil
  then show ?case by simp
next
  case (Cons e es)
  from inner_install_total [OF Cons.prems, of B ctx e] obtain r t
    where i: "inner_install n B ctx e s = Some (r, t)" and l: "length (inbox t) \<le> length (inbox s)"
    by blast
  show ?case
  proof (cases r)
    case (Inl x)
    with i l show ?thesis by simp
  next
    case (Inr rc)
    from l Cons.prems have "length (inbox t) < n" by simp
    from Cons.IH [OF this] i l Inr show ?thesis by auto
  qed
qed

lemma offer_restart_effect:
  "status (offer_restart ctx s) = status s \<and>
   (outbox (offer_restart ctx s) = outbox s @ [Restart_question] \<or>
    outbox (offer_restart ctx s) = outbox s @ [Restart_question, Be_right_back])"
proof -
  obtain a s1 where w: "wait_for_answer ctx (send Restart_question s) = (a, s1)"
    by (cases "wait_for_answer ctx (send Restart_question s)")
  from wait_for_answer_effect(1,2) [OF w] w show ?thesis
    by (auto simp: offer_restart_def send_def)
qed


text \<open>
  An install batch whose depth bound exceeds the number of pending events ends: either with
  an exception, after messages of the items only, or with the handler's return, after the
  messages of the items, then exactly one aggregated report, then the restart question
  (with its acknowledgement when answered yes) if and only if some extension was reported
  as installed successfully.
\<close>

lemma install_reports_once_unless_raised:
  assumes "length (inbox (s :: 'r state)) < n"
  shows "\<exists>res s' items.
     install n B ctx arg s = Some (res, s') \<and>
     (\<forall>m \<in> set items. per_item m) \<and>
     status s' ''installed_extensions'' = concat (map installed_name items) \<and>
     (case res of
        Inl e \<Rightarrow> outbox s' = outbox s @ items
      | Inr u \<Rightarrow>
          (\<exists>tail. outbox s' = outbox s @ items @
              [Installation_completed (status s' ''installed_extensions'') (status s' ''installed_packages'')
                 (status s' ''failed_extensions'') (status s' ''failed_packages'')] @ tail \<and>
           (if status s' ''installed_extensions'' = [] then tail = []
            else tail = [Restart_question] \<or> tail = [Restart_question, Be_right_back])))"
proof -
  let ?s0 = "s\<lparr>status := \<lambda>key. []\<rparr>"
  let ?names = "py_split (py_lower arg)"
  have i0: "batch_inv (outbox s) ?s0" by (simp add: batch_inv_def)
  from assms have "length (inbox ?s0) < n" by simp
  from install_each_total [OF this, of B ctx ?names] obtain r s1
    where e: "install_each n B ctx ?names ?s0 = Some (r, s1)" by blast
  from install_each_inv [OF i0 e] have i1: "batch_inv (outbox s) s1" .
  let ?items = "drop (length (outbox s)) (outbox s1)"
  from i1 have o1: "outbox s1 = outbox s @ ?items"
    by (metis append_take_drop_id batch_inv_def)
  from i1 have p1: "\<forall>m \<in> set ?items. per_item m"
    and n1: "status s1 ''installed_extensions'' = concat (map installed_name ?items)"
    by (simp_all add: batch_inv_def)
  show ?thesis
  proof (cases r)
    case (Inl x)
    with e have "install n B ctx arg s = Some (Inl x, s1)"
      by (simp add: install_def)
    with o1 p1 n1 show ?thesis
      by (intro exI [of _ "Inl x"] exI [of _ s1] exI [of _ ?items]) simp
  next
    case (Inr u)
    let ?report = "Installation_completed (status s1 ''installed_extensions'')
        (status s1 ''installed_packages'') (status s1 ''failed_extensions'') (status s1 ''failed_packages'')"
    let ?s2 = "send ?report s1"
    have st2: "status ?s2 = status s1" and o2: "outbox ?s2 = outbox s @ ?items @ [?report]"
      using o1 by (simp_all add: send_def)
    show ?thesis
    proof (cases "status s1 ''installed_extensions'' = []")
      case True
      with e Inr have "install n B ctx arg s = Some (Inr (), ?s2)"
        by (simp add: install_def Let_def)
      with True st2 o2 p1 n1 show ?thesis
        by (intro exI [of _ "Inr ()"] exI [of _ ?s2] exI [of _ ?items]) simp
    next
      case False
      let ?s3 = "offer_restart ctx ?s2"
      from False e Inr have i: "install n B ctx arg s = Some (Inr (), ?s3)"
        by (simp add: install_def Let_def)
      from offer_restart_effect [of ctx ?s2] st2
      have st3: "status ?s3 = status s1"
        and o3: "outbox ?s3 = outbox ?s2 @ [Restart_question] \<or>
                 outbox ?s3 = outbox ?s2 @ [Restart_question, Be_right_back]"
        by simp_all
      from o3 show ?thesis
      proof
        assume "outbox ?s3 = outbox ?s2 @ [Restart_question]"
        with i False st3 o2 p1 n1 show ?thesis
          by (intro exI [of _ "Inr ()"] exI [of _ ?s3] exI [of _ ?items]) simp
      next
        assume "outbox ?s3 = outbox ?s2 @ [Restart_question, Be_right_back]"
        with i False st3 o2 p1 n1 show ?thesis
          by (intro exI [of _ "Inr ()"] exI [of _ ?s3] exI [of _ ?items]) simp
      qed
    qed
  qed
qed

subsection \<open>The invariant of an uninstallation\<close>

lemma removal_inv_outside [simp]:
  "removal_inv r0 (send m s) = removal_inv r0 s"
  "removal_inv r0 (append_status key x s) = removal_inv r0 s"
  "removal_inv r0 (s\<lparr>inbox := evs\<rparr>) = removal_inv r0 s"
  by (simp_all add: removal_inv_def send_def append_status_def)

lemma removal_inv_answer:
  "wait_for_answer ctx s = (a, s') \<Longrightarrow> removal_inv r0 s' = removal_inv r0 s"
  using wait_for_answer_effect(3) [of ctx s a s'] by (simp add: removal_inv_def)

lemma filter_removeAll_commute:
  "filter P (removeAll x xs) = removeAll x (filter P xs)"
  by (induction xs) auto

lemma dependents_removeAll:
  "dependents (reg\<lparr>installed := removeAll x (installed reg)\<rparr>) a = removeAll x (dependents reg a)"
proof -
  have "declares_dependency (reg\<lparr>installed := removeAll x (installed reg)\<rparr>) a = declares_dependency reg a"
    by (rule ext) (simp add: declares_dependency_def)
  then show ?thesis
    by (simp add: dependents_def filter_removeAll_commute)
qed

lemma removal_inv_reg_uninstall:
  assumes "removal_inv r0 s" "reg_uninstall e (registry s) = (res, r)"
  shows "removal_inv r0 (s\<lparr>registry := r\<rparr>)"
proof (cases "e \<in> set (installed (registry s)) \<and> dependents (registry s) e = []")
  case False
  with assms have "r = registry s"
    by (auto simp: reg_uninstall_def Let_def split: if_splits)
  with assms(1) show ?thesis by (simp add: removal_inv_def)
next
  case True
  with assms(2) have r: "r = (registry s)\<lparr>installed := removeAll e (installed (registry s))\<rparr>"
    by (auto simp: reg_uninstall_def Let_def)
  show ?thesis
    unfolding removal_inv_def
  proof (intro conjI ballI impI)
    show "index (registry (s\<lparr>registry := r\<rparr>)) = index r0"
      using assms(1) r by (simp add: removal_inv_def)
    show "set (installed (registry (s\<lparr>registry := r\<rparr>))) \<subseteq> set (installed r0)"
      using assms(1) r by (auto simp: removal_inv_def)
  next
    fix a assume a: "a \<in> set (installed r0)" "a \<notin> set (installed (registry (s\<lparr>registry := r\<rparr>)))"
    have "dependents (registry s) a = []"
    proof (cases "a = e")
      case True
      with \<open>e \<in> set (installed (registry s)) \<and> dependents (registry s) e = []\<close> show ?thesis by simp
    next
      case False
      with a r have "a \<notin> set (installed (registry s))" by simp
      with assms(1) a(1) show ?thesis by (simp add: removal_inv_def)
    qed
    then show "dependents (registry (s\<lparr>registry := r\<rparr>)) a = []"
      using r by (simp add: dependents_removeAll)
  qed
qed

lemma inner_uninstall_inv:
  "removal_inv r0 s \<Longrightarrow> inner_uninstall n registry_base ctx e s = Some (rc, s') \<Longrightarrow> removal_inv r0 s'"
proof (induction n arbitrary: e s rc s')
  case 0
  then show ?case by simp
next
  case (Suc n)
  let ?body = "\<lambda>d t. map_option (\<lambda>(rc, t'). (rc = Some True, t')) (inner_uninstall n registry_base ctx d t)"
  have body: "\<And>x t ok t'. removal_inv r0 t \<Longrightarrow> ?body x t = Some (ok, t') \<Longrightarrow> removal_inv r0 t'"
    using Suc.IH by auto
  obtain res r where u: "reg_uninstall e (registry s) = (res, r)"
    by (cases "reg_uninstall e (registry s)")
  then have u': "uninstall_extension registry_base e (registry s) = (res, r)"
    by (simp add: registry_base_def)
  from removal_inv_reg_uninstall [OF Suc.prems(1) u] have i1: "removal_inv r0 (s\<lparr>registry := r\<rparr>)" .
  show ?case
  proof (cases res)
    case (Inl err)
    with Suc.prems(2) u' i1 show ?thesis by (cases err) auto
  next
    case (Inr to_cascade)
    show ?thesis
    proof (cases "to_cascade = []")
      case True
      with Suc.prems(2) u' Inr i1 show ?thesis by auto
    next
      case False
      let ?t1 = "send Proceed_with_uninstallation (send (Would_be_uninstalled_too e to_cascade)
                   (send (Uninstalling e) (s\<lparr>registry := r\<rparr>)))"
      obtain a t2 where w: "wait_for_answer ctx ?t1 = (a, t2)"
        by (cases "wait_for_answer ctx ?t1")
      from i1 removal_inv_answer [OF w] have i2: "removal_inv r0 t2" by simp
      note unfold = Suc.prems(2) u' Inr False w
      show ?thesis
      proof (cases "a = Some True")
        case nt: False
        with unfold i2 show ?thesis by auto
      next
        case yes: True
        with unfold obtain rest t3 where l: "for_removing ?body to_cascade 0 t2 = Some (rest, t3)"
          by (auto split: option.splits)
        have i3: "removal_inv r0 t3"
          using for_removing_invariant [where I = "removal_inv r0" and body = ?body, OF body i2 l] .
        show ?thesis
        proof (cases "rest = []")
          case True
          with unfold yes l have "inner_uninstall n registry_base ctx e t3 = Some (rc, s')" by simp
          with Suc.IH i3 show ?thesis by blast
        next
          case False
          with unfold yes l i3 show ?thesis by auto
        qed
      qed
    qed
  qed
qed


lemma inner_uninstall_total:
  "length (inbox (s :: 'r state)) < n \<Longrightarrow>
   \<exists>rc s'. inner_uninstall n B ctx e s = Some (rc, s') \<and> length (inbox s') \<le> length (inbox s)"
proof (induction n arbitrary: e s)
  case 0
  then show ?case by simp
next
  case (Suc n)
  let ?body = "\<lambda>d t. map_option (\<lambda>(rc, t'). (rc = Some True, t')) (inner_uninstall n B ctx d t)"
  obtain res r where u: "uninstall_extension B e (registry s) = (res, r)"
    by (cases "uninstall_extension B e (registry s)")
  show ?case
  proof (cases res)
    case (Inl err)
    with u show ?thesis by (cases err) (auto simp: send_def append_status_def)
  next
    case (Inr to_cascade)
    show ?thesis
    proof (cases "to_cascade = []")
      case True
      with u Inr show ?thesis by (auto simp: send_def append_status_def)
    next
      case False
      let ?t1 = "send Proceed_with_uninstallation (send (Would_be_uninstalled_too e to_cascade)
                   (send (Uninstalling e) (s\<lparr>registry := r\<rparr>)))"
      obtain a t2 where w: "wait_for_answer ctx ?t1 = (a, t2)"
        by (cases "wait_for_answer ctx ?t1")
      from wait_for_answer_effect(4) [OF w]
      have l2: "length (inbox t2) \<le> length (inbox s)" by (simp add: send_def)
      note unfold = u Inr False w
      show ?thesis
      proof (cases "a = Some True")
        case nt: False
        with unfold l2 show ?thesis by (auto simp: send_def append_status_def)
      next
        case yes: True
        from wait_for_answer_effect(5) [OF w] yes
        have "length (inbox t2) < length (inbox s)" by (simp add: send_def)
        with Suc.prems have l2': "length (inbox t2) < n" by simp
        have body: "\<And>x t. length (inbox t) \<le> length (inbox t2) \<Longrightarrow>
            \<exists>ok t'. ?body x t = Some (ok, t') \<and> length (inbox t') \<le> length (inbox t)"
        proof -
          fix x and t :: "'r state" assume "length (inbox t) \<le> length (inbox t2)"
          with l2' have "length (inbox t) < n" by simp
          from Suc.IH [OF this, of x]
          show "\<exists>ok t'. ?body x t = Some (ok, t') \<and> length (inbox t') \<le> length (inbox t)"
            by auto
        qed
        obtain rest t3 where l: "for_removing ?body to_cascade 0 t2 = Some (rest, t3)"
          and l3: "length (inbox t3) \<le> length (inbox t2)"
          using for_removing_total [where \<mu> = "\<lambda>t. length (inbox t)" and body = ?body
              and b = "length (inbox t2)" and s = t2 and xs = to_cascade and i = 0, OF body]
          by auto
        show ?thesis
        proof (cases "rest = []")
          case True
          from l3 l2' have "length (inbox t3) < n" by simp
          from Suc.IH [OF this, of e] obtain rc s'
            where "inner_uninstall n B ctx e t3 = Some (rc, s')"
              and "length (inbox s') \<le> length (inbox t3)" by blast
          with unfold yes l True l3 l2 show ?thesis by simp
        next
          case False
          with unfold yes l l3 l2 show ?thesis by (simp add: send_def append_status_def)
        qed
      qed
    qed
  qed
qed

subsection \<open>The claims\<close>

text \<open>
  C7: when the prefix is already present, \<open>add_prefix\<close> raises \<open>PrefixAlreadyExists\<close> and
  the store is unchanged; when it is absent, \<open>remove_prefix\<close> raises \<open>PrefixNotFound\<close> and
  the store is unchanged.
\<close>

theorem prefix_errors_leave_store:
  "(p \<in> set (get_prefixes c) \<longrightarrow> add_prefix p c = (Inl PrefixAlreadyExists, c)) \<and>
   (q \<notin> set (get_prefixes c) \<longrightarrow> remove_prefix q c = (Inl PrefixNotFound, c))"
  by (simp add: add_prefix_def remove_prefix_def)

theorem prefix_errors_leave_store_witness:
  "add_prefix ''!'' \<lparr>prefixes = Some [''!'', ''?''], owner = None, restarted_from = None, published = []\<rparr>
     = (Inl PrefixAlreadyExists,
        \<lparr>prefixes = Some [''!'', ''?''], owner = None, restarted_from = None, published = []\<rparr>) \<and>
   remove_prefix ''$'' \<lparr>prefixes = Some [''!'', ''?''], owner = None, restarted_from = None, published = []\<rparr>
     = (Inl PrefixNotFound,
        \<lparr>prefixes = Some [''!'', ''?''], owner = None, restarted_from = None, published = []\<rparr>)"
  using prefix_errors_leave_store
    [of "''!''" "\<lparr>prefixes = Some [''!'', ''?''], owner = None, restarted_from = None, published = []\<rparr>" "''$''"]
  by (simp add: get_prefixes_def)

text \<open>
  C10, as the code has it: \<open>Core.add_prefix\<close> adds \<open>q\<close> for a prefix \<open>"q"\<close> of at least two
  characters enclosed in double quotes, the empty prefix for the prefix that is the single
  character \<open>"\<close>, and every other prefix as it is, each time provided the prefix to add is
  not yet present.
\<close>

theorem cmd_add_prefix_stored:
  "(p = dquote # q @ [dquote] \<and> q \<notin> set (get_prefixes (store s)) \<longrightarrow>
      get_prefixes (store (cmd_add_prefix p s)) = get_prefixes (store s) @ [q]) \<and>
   (p = [dquote] \<and> [] \<notin> set (get_prefixes (store s)) \<longrightarrow>
      get_prefixes (store (cmd_add_prefix p s)) = get_prefixes (store s) @ [[]]) \<and>
   (\<not> (p \<noteq> [] \<and> hd p = dquote \<and> last p = dquote) \<and> p \<notin> set (get_prefixes (store s)) \<longrightarrow>
      get_prefixes (store (cmd_add_prefix p s)) = get_prefixes (store s) @ [p])"
proof (intro conjI impI)
  assume a: "p = dquote # q @ [dquote] \<and> q \<notin> set (get_prefixes (store s))"
  then have "py_slice p 1 (length p - 1) = q"
    by (simp add: py_slice_def)
  with a show "get_prefixes (store (cmd_add_prefix p s)) = get_prefixes (store s) @ [q]"
    by (simp add: cmd_add_prefix_def startswith_def endswith_def add_prefix_def
        set_prefixes_def get_prefixes_def send_def)
next
  assume "p = [dquote] \<and> [] \<notin> set (get_prefixes (store s))"
  then show "get_prefixes (store (cmd_add_prefix p s)) = get_prefixes (store s) @ [[]]"
    by (simp add: cmd_add_prefix_def startswith_def endswith_def py_slice_def add_prefix_def
        set_prefixes_def get_prefixes_def send_def)
next
  assume a: "\<not> (p \<noteq> [] \<and> hd p = dquote \<and> last p = dquote) \<and> p \<notin> set (get_prefixes (store s))"
  have ns: "\<not> (startswith p [dquote] \<and> endswith p [dquote])"
  proof
    assume b: "startswith p [dquote] \<and> endswith p [dquote]"
    then have ne: "p \<noteq> []"
      by (auto simp: startswith_def)
    from b ne have "hd p = dquote"
      by (cases p) (auto simp: startswith_def)
    moreover from b ne have "last p = dquote"
      by (cases p rule: rev_cases) (auto simp: endswith_def)
    ultimately show False
      using a ne by simp
  qed
  have "cmd_add_prefix p s =
          (case add_prefix p (store s) of
             (Inr _, c) \<Rightarrow> send (Prefix_added p) (s\<lparr>store := c, command_prefix := get_prefixes c\<rparr>)
           | (Inl PrefixAlreadyExists, c) \<Rightarrow> send (Prefix_already_exists p) (s\<lparr>store := c\<rparr>)
           | (Inl PrefixNotFound, c) \<Rightarrow> s\<lparr>store := c\<rparr>)"
    unfolding cmd_add_prefix_def using ns by (simp only: if_False Let_def)
  with a show "get_prefixes (store (cmd_add_prefix p s)) = get_prefixes (store s) @ [p]"
    by (simp add: add_prefix_def set_prefixes_def get_prefixes_def send_def)
qed

theorem cmd_add_prefix_stored_witness:
  "get_prefixes (store (cmd_add_prefix (dquote # ''?'' @ [dquote]) (initial_state () []))) = [''!'', ''?''] \<and>
   get_prefixes (store (cmd_add_prefix [dquote] (initial_state () []))) = [''!'', []] \<and>
   get_prefixes (store (cmd_add_prefix ''$'' (initial_state () []))) = [''!'', ''$'']"
  using cmd_add_prefix_stored [of "dquote # ''?'' @ [dquote]" "''?''" "initial_state () []"]
    cmd_add_prefix_stored [of "[dquote]" "[]" "initial_state () []"]
    cmd_add_prefix_stored [of "''$''" "[]" "initial_state () []"]
  by (simp add: initial_state_def settings_def get_prefixes_def dquote_def)

text \<open>
  C10 as stated fails for the prefix that is the single character \<open>"\<close>: its first and its
  last character are the double quote, and the prefix added is empty, which is neither that
  prefix without one leading and one trailing quote nor the prefix as it is.
\<close>

theorem cmd_add_prefix_single_quote_counterexample:
  "get_prefixes (store (cmd_add_prefix [dquote] (initial_state () []))) = [''!'', []] \<and>
   hd [dquote] = dquote \<and> last [dquote] = dquote \<and>
   [dquote] \<noteq> dquote # [] @ [dquote] \<and> [] \<noteq> [dquote]"
  by (simp add: cmd_add_prefix_def startswith_def endswith_def py_slice_def add_prefix_def
      set_prefixes_def get_prefixes_def send_def initial_state_def settings_def)

text \<open>
  C3: an invocation by a bot account is refused by \<open>user_allowed\<close>, and an owner-only
  command invoked by an author who is not the configured owner is refused by its own check;
  in both cases no handler runs: nothing is sent and the state is unchanged. The owner-only
  commands are all but \<open>ping\<close>, \<open>contact\<close>, \<open>about\<close> and \<open>version\<close>.
\<close>

theorem unauthorized_invocation_is_silent:
  "(author_is_bot ctx \<longrightarrow> \<not> user_allowed (store s) ctx \<and> invoke handler cmd ctx s = s) \<and>
   (owner_only cmd \<and> get_owner_id (store s) \<noteq> Some (ctx_author ctx) \<longrightarrow> invoke handler cmd ctx s = s) \<and>
   (owner_only cmd \<longleftrightarrow> cmd \<notin> {Cmd_ping, Cmd_contact, Cmd_about, Cmd_version})"
  by (cases cmd) (simp_all add: invoke_def user_allowed_def is_owner_def)

theorem unauthorized_invocation_is_silent_witness:
  "author_is_bot (owner_ctx\<lparr>ctx_author := 2, author_is_bot := True\<rparr>) \<and>
   owner_only Cmd_install \<and>
   get_owner_id (store (initial_state () [])) \<noteq> Some (ctx_author (owner_ctx\<lparr>ctx_author := 2, author_is_bot := True\<rparr>)) \<and>
   invoke (\<lambda>cmd ctx s. send Done (s\<lparr>guilds := []\<rparr>)) Cmd_install
     (owner_ctx\<lparr>ctx_author := 2, author_is_bot := True\<rparr>) (initial_state () []) = initial_state () []"
  using unauthorized_invocation_is_silent
    [of "owner_ctx\<lparr>ctx_author := 2, author_is_bot := True\<rparr>" "initial_state () []"
        "\<lambda>cmd ctx s. send Done (s\<lparr>guilds := []\<rparr>)" Cmd_install]
  by (simp add: owner_ctx_def initial_state_def settings_def get_owner_id_def)

text \<open>
  C8: a yes/no wait that meets its timeout (or no further event) before a reply of the
  author results in \<open>None\<close>; an explicit \<open>no\<close> results in \<open>False\<close>, a different value.
  \<open>leave_confirmation\<close> tests for both and stays in the guild either way.
\<close>

theorem no_reply_differs_from_no:
  "(inbox s = [] \<or> inbox s = Timeout # evs \<longrightarrow> fst (wait_for_answer ctx s) = None) \<and>
   (inbox s = Message m # evs \<and> is_response ctx m \<and> py_lower (content m) = ''no'' \<longrightarrow>
      fst (wait_for_answer ctx s) = Some False) \<and>
   (fst (wait_for_answer ctx (send (Leave_question g) s)) \<in> {None, Some False} \<longrightarrow>
      outbox (leave_confirmation g ctx s) = outbox s @ [Leave_question g, Stay_then] \<and>
      guilds (leave_confirmation g ctx s) = guilds s) \<and>
   (None :: bool option) \<noteq> Some False"
  by (auto simp: wait_for_answer_def leave_confirmation_def send_def split: prod.splits option.splits)

theorem no_reply_differs_from_no_witness:
  "fst (wait_for_answer owner_ctx (initial_state () [Timeout, reply ''yes''])) = None \<and>
   fst (wait_for_answer owner_ctx (initial_state () [reply ''No''])) = Some False \<and>
   outbox (leave_confirmation 3 owner_ctx (initial_state () [Timeout, reply ''yes''])) = [Leave_question 3, Stay_then] \<and>
   outbox (leave_confirmation 3 owner_ctx (initial_state () [reply ''No''])) = [Leave_question 3, Stay_then]"
  using no_reply_differs_from_no
      [of "initial_state () [Timeout, reply ''yes'']" "[reply ''yes'']" owner_ctx
          "\<lparr>author = 1, channel = 7, content = ''No''\<rparr>" 3]
    no_reply_differs_from_no
      [of "initial_state () [reply ''No'']" "[]" owner_ctx "\<lparr>author = 1, channel = 7, content = ''No''\<rparr>" 3]
  by (simp add: initial_state_def reply_def owner_ctx_def is_response_def py_lower_def
      py_lower_char_def wait_for_answer_def send_def)

text \<open>
  C4, what the code does: \<open>wait_for_choice\<close> ends with a \<open>TypeError\<close> for every list of
  choices, before the prompt is sent; and a wait with \<open>choice_check\<close> ends with a
  \<open>ValueError\<close> at a reply that does not start with a digit, although a valid reply follows.
\<close>

theorem wait_for_choice_fails:
  "wait_for_choice a ch text choices s = (Inl TypeError, s) \<and>
   wait_for_message 1 7 (choice_check [''a'', ''b''])
     [reply ''9'', reply ''x'', reply ''1'']
     = (Inl ValueError, [reply ''1''])"
  by (simp add: wait_for_choice_def py_range_of_list_def choice_check_def py_int_char_def reply_def)

text \<open>
  C1, what the code does: in the batch \<open>weather clock\<close>, with the package question answered
  yes and the package installed with exit code 0, \<open>_install\<close> ends after the package loop
  without a \<^verbatim>\<open>return\<close>: \<open>weather\<close> is neither installed nor entered in a list of the
  report, neither the succeeded nor the failed one.
\<close>

theorem install_drops_extension_after_packages:
  "map_option (\<lambda>(r, s). (r, status s ''installed_extensions'', status s ''failed_extensions'',
                          status s ''installed_packages'', installed (registry s)))
     (install 2 registry_base owner_ctx ''weather clock''
        (initial_state (weather_registry []) [reply ''yes'', reply ''no'']))
   = Some (Inr (), [''clock''], [], [''requests-lib''], [''clock''])"
  by code_simp

text \<open>
  C2, what the code does: installing \<open>weather\<close> alone, with the user confirming and the
  package manager returning 0, ends with a report whose installed packages are
  \<open>requests-lib\<close> and whose installed extensions are empty, as are the failed lists; no
  restart is offered.
\<close>

theorem install_weather_report:
  "map_option (\<lambda>(r, s). (r, outbox s))
     (install 2 registry_base owner_ctx ''weather''
        (initial_state (weather_registry []) [reply ''yes'']))
   = Some (Inr (),
           [Installing ''weather'', Failed_to_install ''weather'' [''requests-lib''] [],
            Ask_install_packages, Installed_package ''requests-lib'',
            Installation_completed [] [''requests-lib''] [] []])"
  by code_simp

text \<open>
  C6, what the code does in \<open>update\<close>: in the batch \<open>weather clock\<close>, where the update of
  \<open>weather\<close> asks for a new requirement and the user declines, and \<open>clock\<close> is updated,
  \<open>weather\<close> is entered under the key \<open>failed_to_install_extensions\<close>, which the report does
  not read: the report lists \<open>clock\<close> as updated and no failed extension. In \<open>install\<close> the
  same answers enter \<open>weather\<close> under \<open>failed_extensions\<close>, and the report lists it as
  failed beside the installed \<open>clock\<close>.
\<close>

theorem update_declined_is_not_reported:
  "map_option (\<lambda>s. (outbox s, status s ''failed_extensions'', status s ''failed_to_install_extensions''))
     (update 2 registry_base owner_ctx ''weather clock''
        (initial_state (weather_registry [''weather'', ''clock'']) [reply ''no'', reply ''no'']))
   = Some ([Updating ''weather'', Failed_to_update ''weather'' [''requests-lib''] [],
            Ask_new_requirements ''weather'', Will_not_install_packages ''weather'',
            Updating ''clock'', Updated_successfully ''clock'',
            Update_completed [''clock''] [] [] [], Restart_question],
           [], [''weather'']) \<and>
   map_option (\<lambda>(r, s). (r, outbox s))
     (install 2 registry_base owner_ctx ''weather clock''
        (initial_state (weather_registry []) [reply ''no'', reply ''no'']))
   = Some (Inr (),
           [Installing ''weather'', Failed_to_install ''weather'' [''requests-lib''] [],
            Ask_install_packages, Will_not_install_packages ''weather'',
            Installing ''clock'', Installed_successfully ''clock'',
            Installation_completed [''clock''] [] [''weather''] [], Restart_question])"
  by code_simp

text \<open>
  C9, what the code does: in the batch \<open>https://example.org/repo clock\<close> the name asked for
  the repository does not arrive before the timeout. The wait of line 79 raises
  \<open>TimeoutError\<close>, which leaves \<open>_install\<close>, the loop over the names and the handler: the
  prompt for the name is the only message, \<open>clock\<close> is not processed, and no report and no
  restart question are sent.
\<close>

theorem install_name_timeout_sends_no_report:
  "map_option (\<lambda>(r, s). (r, outbox s, installed (registry s)))
     (install 2 registry_base owner_ctx ''https://example.org/repo clock''
        (initial_state (weather_registry []) [Timeout, reply ''no'']))
   = Some (Inl TimeoutError, [Specify_extension_name], [])"
  by code_simp

text \<open>
  C5: for an installed extension \<open>A\<close> with an installed dependent, the registry's uninstall
  returns the non-empty cascade set, the installed extensions that declare a dependency on
  \<open>A\<close>, and leaves \<open>A\<close> installed. \<open>_uninstall\<close> returns when its depth bound exceeds the
  number of pending events, and whenever it has removed \<open>A\<close>, every member of that cascade
  set is uninstalled and no installed extension declares a dependency on \<open>A\<close>.
\<close>

theorem uninstall_waits_for_cascade:
  assumes "A \<in> set (installed (registry s))" and "dependents (registry s) A \<noteq> []"
  shows "uninstall_extension registry_base A (registry s) = (Inr (dependents (registry s) A), registry s) \<and>
     (length (inbox s) < n \<longrightarrow> inner_uninstall n registry_base ctx A s \<noteq> None) \<and>
     (inner_uninstall n registry_base ctx A s = Some (rc, s') \<and> A \<notin> set (installed (registry s')) \<longrightarrow>
        (\<forall>d \<in> set (dependents (registry s) A). d \<notin> set (installed (registry s'))) \<and>
        dependents (registry s') A = [])"
proof -
  from assms
  have reported: "uninstall_extension registry_base A (registry s) = (Inr (dependents (registry s) A), registry s)"
    by (simp add: registry_base_def reg_uninstall_def Let_def)
  have returns: "inner_uninstall n registry_base ctx A s \<noteq> None" if "length (inbox s) < n"
    using inner_uninstall_total [OF that, of registry_base ctx A] by auto
  have after: "(\<forall>d \<in> set (dependents (registry s) A). d \<notin> set (installed (registry s'))) \<and>
        dependents (registry s') A = []"
    if r: "inner_uninstall n registry_base ctx A s = Some (rc, s') \<and> A \<notin> set (installed (registry s'))"
  proof -
    have "removal_inv (registry s) s" by (simp add: removal_inv_def)
    from inner_uninstall_inv [OF this] r have i: "removal_inv (registry s) s'" by blast
    with assms(1) r have none: "dependents (registry s') A = []"
      by (simp add: removal_inv_def)
    have "\<forall>d \<in> set (dependents (registry s) A). d \<notin> set (installed (registry s'))"
    proof (intro ballI notI)
      fix d assume d: "d \<in> set (dependents (registry s) A)" and here: "d \<in> set (installed (registry s'))"
      from i have "index (registry s') = index (registry s)" by (simp add: removal_inv_def)
      then have "declares_dependency (registry s') A = declares_dependency (registry s) A"
        by (intro ext) (simp add: declares_dependency_def)
      with d here have "d \<in> set (dependents (registry s') A)"
        by (simp add: dependents_def)
      with none show False by simp
    qed
    with none show ?thesis by simp
  qed
  from reported returns after show ?thesis by blast
qed

theorem uninstall_waits_for_cascade_witness:
  "''weather'' \<in> set (installed (weather_registry [''weather'', ''radar'', ''clock''])) \<and>
   dependents (weather_registry [''weather'', ''radar'', ''clock'']) ''weather'' = [''radar''] \<and>
   reg_uninstall ''weather'' (weather_registry [''weather'', ''radar'', ''clock''])
     = (Inr [''radar''], weather_registry [''weather'', ''radar'', ''clock'']) \<and>
   length (inbox (initial_state (weather_registry [''weather'', ''radar'', ''clock'']) [reply ''yes''])) < 3 \<and>
   map_option (\<lambda>(rc, s'). (rc, installed (registry s')))
     (inner_uninstall 3 registry_base owner_ctx ''weather''
        (initial_state (weather_registry [''weather'', ''radar'', ''clock'']) [reply ''yes'']))
     = Some (Some True, [''clock''])"
proof -
  let ?reg = "weather_registry [''weather'', ''radar'', ''clock'']"
  let ?s = "initial_state ?reg [reply ''yes'']"
  have dep: "dependents ?reg ''weather'' = [''radar'']" by code_simp
  have inst: "''weather'' \<in> set (installed ?reg)" by (simp add: weather_registry_def)
  have run: "map_option (\<lambda>(rc, s'). (rc, installed (registry s')))
     (inner_uninstall 3 registry_base owner_ctx ''weather'' ?s) = Some (Some True, [''clock''])"
    by code_simp
  have rs: "registry ?s = ?reg" by (simp add: initial_state_def)
  from inst dep rs
  have "uninstall_extension registry_base ''weather'' (registry ?s) = (Inr (dependents (registry ?s) ''weather''), registry ?s)"
    using uninstall_waits_for_cascade [of "''weather''" ?s 3 owner_ctx] by simp
  with dep rs have "reg_uninstall ''weather'' ?reg = (Inr [''radar''], ?reg)"
    by (simp add: registry_base_def)
  moreover have "length (inbox ?s) < 3" by (simp add: initial_state_def)
  ultimately show ?thesis using inst dep run by simp
qed

end
